theory Spec2Isabelle
  imports Complex_Main
begin

section \<open>The layout engine of \<open>ctai_excel_reporter\<close> (\<open>BaseExcelReporter\<close>)\<close>

text \<open>
  A shallow embedding of \<open>src/ctai_excel_reporter/base_excel_reporter.py\<close>.

  \<^item> A Python \<open>str\<close> is a list of code points (\<open>py_str\<close>), so that \<open>len\<close> is \<open>length\<close>.
    Literal option keys and number-format codes of the source are HOL strings.
  \<^item> A finite Python number is a \<open>real\<close>. Column widths are computed exactly. The
    arithmetic of \<open>_image\<close> is that of IEEE 754 doubles: every quotient and product is
    rounded by \<open>rnd\<close>. The comparisons of \<open>__clip\<close> are those of the type they are used
    at; \<open>py_number\<close> is the type of all Python numbers, with the infinities and \<open>nan\<close>.
  \<^item> Every raise of the source is a result \<open>Inl e\<close>.
  \<^item> The cursor is a Python list that \<open>apply_shift\<close> mutates in place, and the reporter
    holds a reference to it: list objects live in \<open>heap\<close>, and \<open>cursor\<close> is an address.
  \<^item> The spreadsheet writer (xlsxwriter) is a collaborator: a worksheet is the table
    \<open>col_info\<close> that \<open>set_column\<close> fills and the sequence of the other calls made on it.
\<close>

subsection \<open>Values\<close>

type_synonym py_str = "nat list"

abbreviation ord :: "char \<Rightarrow> nat" where
  "ord c \<equiv> of_char c"

definition py :: "string \<Rightarrow> py_str" where
  "py s = map ord s"

text \<open>
  A Python object as far as the reporter looks at it: whether it is a \<open>str\<close>, a
  \<open>numbers.Number\<close> or something else, and the text \<open>str(value)\<close>.
\<close>

datatype py_value = Str py_str | Number py_str | Object py_str

fun str :: "py_value \<Rightarrow> py_str" where
  "str (Str s) = s"
| "str (Number s) = s"
| "str (Object s) = s"

datatype py_error =
  TypeError | AttributeError | KeyError | IndexError | ZeroDivisionError | OverflowError
| DuplicateWorksheetName

definition and_then :: "py_error + 'a \<Rightarrow> ('a \<Rightarrow> py_error + 'b) \<Rightarrow> py_error + 'b" where
  "and_then m f = (case m of Inl e \<Rightarrow> Inl e | Inr x \<Rightarrow> f x)"

text \<open>
  A Python number as \<open><\<close>, \<open>>\<close> and \<open><=\<close> see it: a finite value (an int or a float), one
  of the two infinities, or the float \<open>nan\<close>, for which every comparison is false.
\<close>

datatype py_number = Finite real | PosInf | NegInf | NaN

instantiation py_number :: ord
begin

definition less_py_number :: "py_number \<Rightarrow> py_number \<Rightarrow> bool" where
  "less_py_number x y =
     (case (x, y) of
        (Finite a, Finite b) \<Rightarrow> a < b
      | (Finite a, PosInf) \<Rightarrow> True
      | (NegInf, Finite b) \<Rightarrow> True
      | (NegInf, PosInf) \<Rightarrow> True
      | _ \<Rightarrow> False)"

definition less_eq_py_number :: "py_number \<Rightarrow> py_number \<Rightarrow> bool" where
  "less_eq_py_number x y =
     (case (x, y) of
        (Finite a, Finite b) \<Rightarrow> a \<le> b
      | (Finite a, PosInf) \<Rightarrow> True
      | (NegInf, Finite b) \<Rightarrow> True
      | (NegInf, PosInf) \<Rightarrow> True
      | (NegInf, NegInf) \<Rightarrow> True
      | (PosInf, PosInf) \<Rightarrow> True
      | _ \<Rightarrow> False)"

instance ..

end

text \<open>
  Floats are IEEE 754 doubles with 53 significant bits. \<open>rnd x\<close> is the double nearest to
  the real \<open>x\<close>, ties going to the even significand: with \<open>e\<close> the binary exponent of \<open>x\<close>
  (not below -1022, where the subnormal numbers begin) the doubles around \<open>x\<close> are the
  multiples of \<open>2 ^ (e - 52)\<close>. A result of magnitude \<open>2 ^ 1024\<close> or more is not a double:
  Python raises \<open>OverflowError\<close> when an int operation or a conversion produces it, and
  \<open>math.ceil\<close> raises it for the infinity that a float operation produces.
\<close>

definition round_even :: "real \<Rightarrow> int" where
  "round_even x =
     (let f = \<lfloor>x\<rfloor>; d = x - of_int f
      in if d < 1 / 2 then f else if 1 / 2 < d then f + 1 else if even f then f else f + 1)"

function expo_up :: "real \<Rightarrow> int \<Rightarrow> int" where
  "expo_up x e = (if 2 \<le> x \<and> e < 1024 then expo_up (x / 2) (e + 1) else e)"
  by pat_completeness auto
termination by (relation "measure (\<lambda>(x, e). nat (1024 - e))") auto

function expo_down :: "real \<Rightarrow> int \<Rightarrow> int" where
  "expo_down x e = (if x < 1 \<and> - 1022 < e then expo_down (2 * x) (e - 1) else e)"
  by pat_completeness auto
termination by (relation "measure (\<lambda>(x, e). nat (e + 1022))") auto

definition expo :: "real \<Rightarrow> int" where
  "expo x = (if 1 \<le> \<bar>x\<bar> then expo_up \<bar>x\<bar> 0 else expo_down \<bar>x\<bar> 0)"

definition rnd :: "real \<Rightarrow> real" where
  "rnd x = (if x = 0 then 0
            else let u = 2 powi (expo x - 52) in of_int (round_even (x / u)) * u)"

definition checked :: "real \<Rightarrow> py_error + real" where
  "checked q = (if 2 ^ 1024 \<le> \<bar>q\<bar> then Inl OverflowError else Inr q)"

text \<open>\<open>str.split(sep)\<close> for a one-character separator: never the empty list.\<close>

fun split :: "nat \<Rightarrow> py_str \<Rightarrow> py_str list" where
  "split sep [] = [[]]"
| "split sep (c # cs) =
     (if c = sep then [] # split sep cs
      else (case split sep cs of [] \<Rightarrow> [[c]] | l # ls \<Rightarrow> (c # l) # ls))"

subsection \<open>Formats and worksheets (the collaborator)\<close>

type_synonym style = "(string \<times> string) list"

text \<open>
  A \<open>Format\<close> object: the properties dict it was created from, and the border indices
  that \<open>set_bottom()\<close> and \<open>set_right()\<close> write (both 0 on a new format, 1 after the call).
\<close>

record cell_format =
  fmt_props :: style
  fmt_bottom :: nat
  fmt_right :: nat

definition add_format :: "style option \<Rightarrow> cell_format" where
  "add_format properties =
     \<lparr>fmt_props = (case properties of None \<Rightarrow> [] | Some d \<Rightarrow> d), fmt_bottom = 0, fmt_right = 0\<rparr>"

definition set_bottom :: "cell_format \<Rightarrow> cell_format" where
  "set_bottom f = f\<lparr>fmt_bottom := 1\<rparr>"

definition set_right :: "cell_format \<Rightarrow> cell_format" where
  "set_right f = f\<lparr>fmt_right := 1\<rparr>"

text \<open>
  The options dict of \<open>insert_image\<close>: keys with a number, a text or the bytes of an image
  (named by its size). \<open>dict_set\<close> is \<open>d[k] = v\<close>, which keeps the place of a key that is
  there; \<open>dict_merge base extra\<close> is the display \<open>{**base, **extra}\<close>.
\<close>

datatype opt_value = Num real | Txt py_str | ImageData "int \<times> int"

type_synonym options = "(string \<times> opt_value) list"

fun dict_set :: "string \<Rightarrow> opt_value \<Rightarrow> options \<Rightarrow> options" where
  "dict_set k v [] = [(k, v)]"
| "dict_set k v ((k', v') # d) = (if k' = k then (k, v) # d else (k', v') # dict_set k v d)"

definition dict_merge :: "options \<Rightarrow> options \<Rightarrow> options" where
  "dict_merge base extra = fold (\<lambda>(k, v). dict_set k v) extra base"

datatype call =
  Write int int py_value cell_format
| InsertTextbox int int py_str int int style
| InsertImage int int py_str options

record worksheet =
  col_info :: "int \<rightharpoonup> real \<times> cell_format"
  calls :: "call list"

definition add_worksheet :: worksheet where
  "add_worksheet = \<lparr>col_info = Map.empty, calls = []\<rparr>"

definition set_column :: "worksheet \<Rightarrow> int \<Rightarrow> int \<Rightarrow> real \<Rightarrow> cell_format \<Rightarrow> worksheet" where
  "set_column s first_col last_col width fmt =
     s\<lparr>col_info := (\<lambda>c. if first_col \<le> c \<and> c \<le> last_col then Some (width, fmt) else col_info s c)\<rparr>"

subsection \<open>Class constants\<close>

definition CELL_WIDTH :: real where
  "CELL_WIDTH = 8.43"

definition PIXEL_CELL_WIDTH :: int where
  "PIXEL_CELL_WIDTH = 64"

definition PIXEL_ROW_HEIGHT :: int where
  "PIXEL_ROW_HEIGHT = 20"

definition PIXEL_TO_WIDTH_RATIO :: real where
  "PIXEL_TO_WIDTH_RATIO = CELL_WIDTH / real_of_int PIXEL_CELL_WIDTH"

definition PIXEL_CHAR_WIDTH :: int where
  "PIXEL_CHAR_WIDTH = \<lfloor>8 * (1.125 :: real)\<rfloor>"

subsection \<open>The reporter\<close>

type_synonym addr = nat

text \<open>
  \<open>DEFAULT_CURSOR\<close> is the address of the list \<open>[0, 0]\<close> that Python builds once, when
  \<open>def set_active_sheet(self, name, cursor=[0, 0])\<close> is executed, and hands to every call
  that omits \<open>cursor\<close>.
\<close>

definition DEFAULT_CURSOR :: addr where
  "DEFAULT_CURSOR = 0"

record reporter =
  PIXEL_SHEET_WIDTH :: int
  MAX_CELL_WIDTH :: real
  MIN_CELL_WIDTH :: real
  sheetnames :: "py_str \<rightharpoonup> worksheet"
  sheet :: "py_str option"
  cursor :: "addr option"
  cursor_anchor :: "addr option"
  default_cell_format :: "cell_format option"
  heap :: "addr \<rightharpoonup> int \<times> int"
  next_addr :: addr

definition init :: "int \<Rightarrow> real \<Rightarrow> real \<Rightarrow> reporter" where
  "init pixel_sheet_width max_cell_width min_cell_width =
     \<lparr>PIXEL_SHEET_WIDTH = pixel_sheet_width,
      MAX_CELL_WIDTH = max_cell_width,
      MIN_CELL_WIDTH = min_cell_width,
      sheetnames = Map.empty,
      sheet = None,
      cursor = None,
      cursor_anchor = None,
      default_cell_format = None,
      heap = [DEFAULT_CURSOR \<mapsto> (0, 0)],
      next_addr = Suc DEFAULT_CURSOR\<rparr>"

text \<open>A caller's list literal \<open>[row, col]\<close>: a new object.\<close>

definition new_list :: "reporter \<Rightarrow> int \<times> int \<Rightarrow> addr \<times> reporter" where
  "new_list r p = (next_addr r, r\<lparr>heap := (heap r)(next_addr r \<mapsto> p), next_addr := Suc (next_addr r)\<rparr>)"

text \<open>\<open>self._cursor[0]\<close>, \<open>self._cursor[1]\<close>: \<open>None\<close> is not subscriptable.\<close>

definition cursor_pos :: "reporter \<Rightarrow> py_error + int \<times> int" where
  "cursor_pos r =
     (case cursor r of None \<Rightarrow> Inl TypeError
      | Some a \<Rightarrow> (case heap r a of None \<Rightarrow> Inl TypeError | Some p \<Rightarrow> Inr p))"

text \<open>\<open>self._sheet.<method>\<close>: \<open>None\<close> has no attributes.\<close>

definition active_sheet :: "reporter \<Rightarrow> py_error + py_str \<times> worksheet" where
  "active_sheet r =
     (case sheet r of None \<Rightarrow> Inl AttributeError
      | Some n \<Rightarrow> (case sheetnames r n of None \<Rightarrow> Inl AttributeError | Some s \<Rightarrow> Inr (n, s)))"

definition put_sheet :: "reporter \<Rightarrow> py_str \<Rightarrow> worksheet \<Rightarrow> reporter" where
  "put_sheet r n s = r\<lparr>sheetnames := (sheetnames r)(n \<mapsto> s)\<rparr>"

definition sheet_call :: "reporter \<Rightarrow> call \<Rightarrow> py_error + reporter" where
  "sheet_call r c =
     and_then (active_sheet r) (\<lambda>(n, s). Inr (put_sheet r n (s\<lparr>calls := calls s @ [c]\<rparr>)))"

definition set_active_sheet :: "reporter \<Rightarrow> py_str \<Rightarrow> addr option \<Rightarrow> py_error + reporter" where
  "set_active_sheet r name cursor_arg =
     (case sheetnames r name of
        None \<Rightarrow> Inl KeyError
      | Some _ \<Rightarrow>
          Inr (r\<lparr>sheet := Some name,
                 cursor := Some (case cursor_arg of None \<Rightarrow> DEFAULT_CURSOR | Some a \<Rightarrow> a)\<rparr>))"

definition create_empty_sheet :: "reporter \<Rightarrow> py_str \<Rightarrow> style \<Rightarrow> py_error + reporter" where
  "create_empty_sheet r name default_cell_fmt =
     (if name \<in> dom (sheetnames r) then Inl DuplicateWorksheetName
      else
        let cell_fmt = add_format (Some default_cell_fmt);
            s = set_column add_worksheet 0 701 CELL_WIDTH cell_fmt;
            r1 = r\<lparr>sheetnames := (sheetnames r)(name \<mapsto> s), sheet := Some name\<rparr>;
            r2 = r1\<lparr>default_cell_format := Some (add_format (Some default_cell_fmt))\<rparr>
        in set_active_sheet r2 name None)"

definition apply_shift :: "reporter \<Rightarrow> int \<times> int \<Rightarrow> py_error + reporter" where
  "apply_shift r shift =
     (case cursor r of None \<Rightarrow> Inl TypeError
      | Some a \<Rightarrow>
          (case heap r a of None \<Rightarrow> Inl TypeError
           | Some (row, col) \<Rightarrow> Inr (r\<lparr>heap := (heap r)(a \<mapsto> (row + fst shift, col + snd shift))\<rparr>)))"

definition text_op :: "reporter \<Rightarrow> py_value \<Rightarrow> style option \<Rightarrow> int \<times> int \<Rightarrow> py_error + reporter" where
  "text_op r string fmt shift =
     and_then (cursor_pos r) (\<lambda>(row, col).
     and_then (sheet_call r (Write row col string (add_format fmt))) (\<lambda>r1.
     apply_shift r1 shift))"

subsection \<open>Size estimates\<close>

fun height_loop :: "int \<Rightarrow> py_str list \<Rightarrow> int \<Rightarrow> py_error + int" where
  "height_loop S [] height = Inr height"
| "height_loop S (line # lines) height =
     (if S = 0 then Inl ZeroDivisionError
      else height_loop S lines (height + int (length line) * PIXEL_CHAR_WIDTH div S + 1))"

definition printed_text_height :: "reporter \<Rightarrow> py_str \<Rightarrow> py_error + int" where
  "printed_text_height r txt = height_loop (PIXEL_SHEET_WIDTH r) (split (ord CHR 0x0A) txt) 0"

definition printed_value_width :: "py_value \<Rightarrow> real" where
  "printed_value_width v =
     real (length (str v)) * real_of_int PIXEL_CHAR_WIDTH * PIXEL_TO_WIDTH_RATIO"

text \<open>
  \<open>__clip\<close> only compares: it is defined for every type with \<open><\<close>, the reals of the column
  widths and \<open>py_number\<close> among them.
\<close>

definition clip :: "'a::ord \<Rightarrow> 'a \<Rightarrow> 'a \<Rightarrow> 'a" where
  "clip v lower upper = (if v < lower then lower else if v > upper then upper else v)"

subsection \<open>Text boxes and images\<close>

fun header_cells_loop :: "nat \<Rightarrow> reporter \<Rightarrow> style option \<Rightarrow> py_error + reporter" where
  "header_cells_loop 0 r header_fmt = Inr r"
| "header_cells_loop (Suc n) r header_fmt =
     and_then (text_op r (Str []) header_fmt (0, 1)) (\<lambda>r1. header_cells_loop n r1 header_fmt)"

text \<open>\<open>self._cursor_anchor = self._cursor.copy()\<close>: a new list with the same items.\<close>

definition copy_cursor :: "reporter \<Rightarrow> py_error + reporter" where
  "copy_cursor r =
     (case cursor r of None \<Rightarrow> Inl AttributeError
      | Some a \<Rightarrow>
          (case heap r a of None \<Rightarrow> Inl AttributeError
           | Some p \<Rightarrow>
               Inr (r\<lparr>heap := (heap r)(next_addr r \<mapsto> p),
                      next_addr := Suc (next_addr r),
                      cursor_anchor := Some (next_addr r)\<rparr>)))"

definition title_branch :: "reporter \<Rightarrow> py_value \<Rightarrow> style option \<Rightarrow> py_error + reporter" where
  "title_branch r title header_fmt =
     and_then (copy_cursor r) (\<lambda>r1.
     and_then (text_op r1 title header_fmt (0, 1)) (\<lambda>r2.
     let cell_header = int (length (str title)) * PIXEL_CHAR_WIDTH div PIXEL_CELL_WIDTH in
     and_then (header_cells_loop (nat (max 3 cell_header)) r2 header_fmt) (\<lambda>r3.
     Inr (r3\<lparr>cursor := cursor_anchor r3\<rparr>))))"

text \<open>
  The options dict of \<open>insert_textbox\<close> is \<open>width\<close>, \<open>height\<close> and \<open>textbox_format\<close>
  (whose keys win, as \<open>**textbox_format\<close> comes last); \<open>object_position\<close> is the constant 1.
\<close>

definition textbox_op ::
  "reporter \<Rightarrow> py_str \<Rightarrow> py_value option \<Rightarrow> style option \<Rightarrow> style \<Rightarrow> (int \<times> int) option
     \<Rightarrow> py_error + reporter" where
  "textbox_op r txt title header_fmt textbox_fmt shift =
     and_then (printed_text_height r txt) (\<lambda>text_height.
     and_then (cursor_pos r) (\<lambda>(row, col).
     and_then (sheet_call r (InsertTextbox (row + 1) col txt (PIXEL_SHEET_WIDTH r)
                               (text_height * PIXEL_ROW_HEIGHT) textbox_fmt)) (\<lambda>r1.
     and_then (case title of None \<Rightarrow> Inr r1 | Some t \<Rightarrow> title_branch r1 t header_fmt) (\<lambda>r2.
     apply_shift r2 (case shift of None \<Rightarrow> (text_height + 2, 0) | Some sh \<Rightarrow> sh)))))"

text \<open>
  \<open>image.size\<close> is \<open>(width, height)\<close>, two ints; a bound of \<open>max_pixel_size\<close> is an int or
  a finite float. \<open>lim / cur\<close> is Python's true division: it raises on a zero divisor, and
  its result is the quotient rounded to a double (for a float \<open>lim\<close> the divisor is first
  converted, which is exact for a pixel count, below \<open>2 ^ 53\<close>).
\<close>

definition true_div :: "real \<Rightarrow> int \<Rightarrow> py_error + real" where
  "true_div limit cur =
     (if cur = 0 then Inl ZeroDivisionError else checked (rnd (limit / real_of_int cur)))"

text \<open>
  \<open>min(1, *scales)\<close> keeps its first argument, the int 1, unless a scale is below it: the
  scale is 1 exactly when it is that int.
\<close>

definition image_scale :: "int \<times> int \<Rightarrow> real \<times> real \<Rightarrow> py_error + real" where
  "image_scale img_size max_pixel_size =
     and_then (true_div (fst max_pixel_size) (fst img_size)) (\<lambda>sw.
     and_then (true_div (snd max_pixel_size) (snd img_size)) (\<lambda>sh.
     Inr (min 1 (min sw sh))))"

text \<open>
  \<open>math.ceil(image.size[1] * scale / self.PIXEL_ROW_HEIGHT) + 1\<close>. With the int 1 for
  \<open>scale\<close> the product is the int \<open>height\<close> and the quotient an int division. With a
  float \<open>scale\<close> the height is converted, the product and the quotient are float
  operations.
\<close>

definition default_image_shift :: "int \<Rightarrow> real \<Rightarrow> py_error + int \<times> int" where
  "default_image_shift height scale =
     (if scale = 1 then
        and_then (checked (rnd (real_of_int height / real_of_int PIXEL_ROW_HEIGHT))) (\<lambda>q.
        Inr (\<lceil>q\<rceil> + 1, 0))
      else
        and_then (checked (rnd (real_of_int height))) (\<lambda>fh.
        and_then (checked (rnd (fh * scale))) (\<lambda>m.
        Inr (\<lceil>rnd (m / real_of_int PIXEL_ROW_HEIGHT)\<rceil> + 1, 0))))"

text \<open>
  The options of \<open>insert_image\<close> are the image data, the two scales and
  \<open>object_position\<close>, then \<open>**image_options\<close>, whose keys win.
\<close>

definition image_op ::
  "reporter \<Rightarrow> int \<times> int \<Rightarrow> py_str \<Rightarrow> real \<times> real \<Rightarrow> options \<Rightarrow> (int \<times> int) option
     \<Rightarrow> py_error + reporter" where
  "image_op r img_size image_name max_pixel_size image_options shift =
     and_then (image_scale img_size max_pixel_size) (\<lambda>scale.
     and_then (cursor_pos r) (\<lambda>(row, col).
     and_then (sheet_call r (InsertImage row col image_name
                 (dict_merge [(''image_data'', ImageData img_size), (''x_scale'', Num scale),
                              (''y_scale'', Num scale), (''object_position'', Num 3)]
                    image_options))) (\<lambda>r1.
     and_then (case shift of None \<Rightarrow> default_image_shift (snd img_size) scale
               | Some sh \<Rightarrow> Inr sh) (\<lambda>sh.
     apply_shift r1 sh))))"

subsection \<open>Tables\<close>

text \<open>
  A \<open>DataFrame\<close>: the column labels, each with what \<open>is_integer_dtype\<close> and
  \<open>is_float_dtype\<close> answer for that column, and the rows as \<open>iterrows()\<close> yields them
  (the index label and the values). \<open>iterrows()\<close> yields one value per column; the record
  does not force it, and the theorems on \<open>_table\<close> ask it of \<open>rows\<close>.
\<close>

datatype dtype = IntegerDtype | FloatDtype | OtherDtype

record dataframe =
  col_defs :: "(py_value \<times> dtype) list"
  rows :: "(py_value \<times> py_value list) list"

definition columns :: "dataframe \<Rightarrow> py_value list" where
  "columns df = map fst (col_defs df)"

text \<open>
  \<open>df[col_name]\<close>: the one column of that label; a label that occurs several times
  selects a \<open>DataFrame\<close>, which is of neither dtype.
\<close>

definition getitem :: "dataframe \<Rightarrow> py_value \<Rightarrow> py_error + dtype" where
  "getitem df col_name =
     (case filter (\<lambda>c. fst c = col_name) (col_defs df) of
        [] \<Rightarrow> Inl KeyError
      | [c] \<Rightarrow> Inr (snd c)
      | _ \<Rightarrow> Inr OtherDtype)"

text \<open>\<open>col_info[col][0]\<close> if \<open>col in col_info\<close>, else \<open>CELL_WIDTH\<close>.\<close>

definition col_width :: "worksheet \<Rightarrow> int \<Rightarrow> real" where
  "col_width s col = (case col_info s col of Some info \<Rightarrow> fst info | None \<Rightarrow> CELL_WIDTH)"

definition get_col_width :: "reporter \<Rightarrow> int \<Rightarrow> py_error + real" where
  "get_col_width r col = and_then (active_sheet r) (\<lambda>(n, s). Inr (col_width s col))"

definition adjust_col_width ::
  "reporter \<Rightarrow> int \<Rightarrow> py_value \<Rightarrow> cell_format \<Rightarrow> py_error + reporter" where
  "adjust_col_width r col_ind txt col_fmt =
     (let text_len = printed_value_width txt;
          width = clip text_len (MIN_CELL_WIDTH r) (MAX_CELL_WIDTH r)
      in and_then (active_sheet r) (\<lambda>(n, s).
           Inr (put_sheet r n (set_column s col_ind col_ind width col_fmt))))"

definition get_number_format :: "py_value \<Rightarrow> dataframe \<Rightarrow> py_error + style option" where
  "get_number_format col_name df =
     (if (case col_name of Str s \<Rightarrow> ord CHR ''%'' \<in> set s | _ \<Rightarrow> False)
      then Inr (Some [(''num_format'', ''0.00%'')])
      else and_then (getitem df col_name) (\<lambda>d.
        if d = IntegerDtype then Inr (Some [(''num_format'', ''0'')])
        else if d = FloatDtype then Inr (Some [(''num_format'', ''0.000'')])
        else Inr None))"

fun cast_to_str_except_numbers :: "py_value \<Rightarrow> py_value" where
  "cast_to_str_except_numbers (Number s) = Number s"
| "cast_to_str_except_numbers v = Str (str v)"

definition get_table_item_format :: "nat \<Rightarrow> nat \<Rightarrow> dataframe \<Rightarrow> py_error + cell_format" where
  "get_table_item_format cur_row cur_col df =
     (if cur_col < length (columns df) then
        and_then (get_number_format (columns df ! cur_col) df) (\<lambda>num_format.
        let cur_format = add_format num_format in
        Inr (if int cur_row = int (length (rows df)) - 1
                \<and> int cur_col = int (length (columns df)) - 1
             then set_right (set_bottom cur_format)
             else if int cur_row = int (length (rows df)) - 1 then set_bottom cur_format
             else if int cur_col = int (length (columns df)) - 1 then set_right cur_format
             else cur_format))
      else Inl IndexError)"

text \<open>
  Lines 171 to 175 of \<open>_table\<close>, the width adjustment of one column
  (\<open>col\<close> is \<open>j + self._cursor[1] + 1\<close>): the spec's \<open>ensureWidth\<close>.
\<close>

definition ensure_width :: "reporter \<Rightarrow> int \<Rightarrow> py_value \<Rightarrow> py_error + reporter" where
  "ensure_width r col col_name =
     and_then (get_col_width r col) (\<lambda>cur_width.
     let need_width = printed_value_width col_name
     in if cur_width < need_width then
          (case default_cell_format r of
             None \<Rightarrow> Inl AttributeError
           | Some d \<Rightarrow> adjust_col_width r col col_name d)
        else Inr r)"

text \<open>A sequence of such adjustments, each on a column and a candidate text.\<close>

fun ensure_widths :: "reporter \<Rightarrow> (int \<times> py_value) list \<Rightarrow> py_error + reporter" where
  "ensure_widths r [] = Inr r"
| "ensure_widths r ((col, col_name) # rest) =
     and_then (ensure_width r col col_name) (\<lambda>r1. ensure_widths r1 rest)"

text \<open>\<open>self._sheet.write(self._cursor[0] + drow, self._cursor[1] + dcol, value, fmt)\<close>.\<close>

definition write_at :: "reporter \<Rightarrow> int \<Rightarrow> int \<Rightarrow> py_value \<Rightarrow> cell_format \<Rightarrow> py_error + reporter" where
  "write_at r drow dcol v fmt =
     and_then (active_sheet r) (\<lambda>_.
     and_then (cursor_pos r) (\<lambda>(row, col).
     sheet_call r (Write (row + drow) (col + dcol) v fmt)))"

fun table_header_loop :: "reporter \<Rightarrow> cell_format \<Rightarrow> nat \<Rightarrow> py_value list \<Rightarrow> py_error + reporter" where
  "table_header_loop r col_format j [] = Inr r"
| "table_header_loop r col_format j (col_name # rest) =
     and_then (cursor_pos r) (\<lambda>(row, col).
     and_then (ensure_width r (int j + col + 1) col_name) (\<lambda>r1.
     and_then (write_at r1 0 (int j + 1) col_name col_format) (\<lambda>r2.
     table_header_loop r2 col_format (Suc j) rest)))"

fun table_values_loop :: "reporter \<Rightarrow> dataframe \<Rightarrow> nat \<Rightarrow> nat \<Rightarrow> py_value list \<Rightarrow> py_error + reporter" where
  "table_values_loop r df i j [] = Inr r"
| "table_values_loop r df i j (val # rest) =
     and_then (get_table_item_format i j df) (\<lambda>cur_format.
     and_then (write_at r (int i + 1) (int j + 1) (cast_to_str_except_numbers val) cur_format) (\<lambda>r1.
     table_values_loop r1 df i (Suc j) rest))"

fun table_rows_loop ::
  "reporter \<Rightarrow> dataframe \<Rightarrow> cell_format \<Rightarrow> nat \<Rightarrow> (py_value \<times> py_value list) list
     \<Rightarrow> py_error + reporter" where
  "table_rows_loop r df ind_format i [] = Inr r"
| "table_rows_loop r df ind_format i ((index, vals) # rest) =
     and_then (write_at r (int i + 1) 0 index ind_format) (\<lambda>r1.
     and_then (table_values_loop r1 df i 0 vals) (\<lambda>r2.
     table_rows_loop r2 df ind_format (Suc i) rest))"

definition table_op ::
  "reporter \<Rightarrow> dataframe \<Rightarrow> style \<Rightarrow> style \<Rightarrow> (int \<times> int) option \<Rightarrow> py_error + reporter" where
  "table_op r df table_column_format table_index_format shift =
     (let col_format = add_format (Some table_column_format) in
      and_then (table_header_loop r col_format 0 (columns df)) (\<lambda>r1.
      let ind_format = add_format (Some table_index_format) in
      and_then (table_rows_loop r1 df ind_format 0 (rows df)) (\<lambda>r2.
      apply_shift r2 (case shift of None \<Rightarrow> (int (length (rows df)) + 2, 0) | Some sh \<Rightarrow> sh))))"

subsection \<open>Reporters in use\<close>

text \<open>
  After \<open>create_empty_sheet\<close> the reporter has an active sheet \<open>s\<close> of name \<open>n\<close>, a cursor
  list at address \<open>a\<close> holding the position \<open>p\<close>, and a default cell format; every list
  that exists was allocated, so its address is below \<open>next_addr\<close>.
\<close>

definition ready :: "reporter \<Rightarrow> addr \<Rightarrow> int \<times> int \<Rightarrow> py_str \<Rightarrow> worksheet \<Rightarrow> bool" where
  "ready r a p n s \<longleftrightarrow>
     cursor r = Some a \<and> heap r a = Some p \<and> a < next_addr r
     \<and> sheet r = Some n \<and> sheetnames r n = Some s \<and> default_cell_format r \<noteq> None"

text \<open>What an operation leaves alone besides the cursor list at \<open>a\<close> and the sheets.\<close>

definition frame :: "reporter \<Rightarrow> reporter \<Rightarrow> addr \<Rightarrow> bool" where
  "frame r r' a \<longleftrightarrow>
     next_addr r' = next_addr r \<and> cursor_anchor r' = cursor_anchor r
     \<and> (\<forall>b. b \<noteq> a \<longrightarrow> heap r' b = heap r b)"

text \<open>
  The reporter after \<open>BaseExcelReporter(path)\<close> with the default arguments and
  \<open>create_empty_sheet('Sheet1')\<close>.
\<close>

definition example_sheet :: worksheet where
  "example_sheet = set_column add_worksheet 0 701 CELL_WIDTH (add_format (Some []))"

definition example_reporter :: reporter where
  "example_reporter =
     (init 1200 24 3.5)
       \<lparr>sheetnames := [py ''Sheet1'' \<mapsto> example_sheet],
        sheet := Some (py ''Sheet1''),
        cursor := Some DEFAULT_CURSOR,
        default_cell_format := Some (add_format (Some []))\<rparr>"

text \<open>
  A frame of three rows and two columns of integer dtype, the second one named with a
  percent sign, as \<open>pd.DataFrame({'n': [4, 7, 9], 'done %': [1, 0, 1]})\<close> builds it.
\<close>

definition example_table :: dataframe where
  "example_table =
     \<lparr>col_defs = [(Str (py ''n''), IntegerDtype), (Str (py ''done %''), IntegerDtype)],
      rows = [(Number (py ''0''), [Number (py ''4''), Number (py ''1'')]),
              (Number (py ''1''), [Number (py ''7''), Number (py ''0'')]),
              (Number (py ''2''), [Number (py ''9''), Number (py ''1'')])]\<rparr>"

text \<open>
  How the width table of a sheet may change over width adjustments with bounds \<open>lo\<close> and
  \<open>hi\<close>: a column keeps its entry, or gets a width of \<open>[lo, hi]\<close> that is not below the one
  it had, if that one was at most \<open>hi\<close>.
\<close>

definition grown :: "real \<Rightarrow> real \<Rightarrow> worksheet \<Rightarrow> worksheet \<Rightarrow> bool" where
  "grown lo hi s s' \<longleftrightarrow>
     (\<forall>c. col_info s' c = col_info s c
          \<or> (\<exists>w f. col_info s' c = Some (w, f) \<and> lo \<le> w \<and> w \<le> hi
                \<and> (col_width s c \<le> hi \<longrightarrow> col_width s c \<le> w)))"

section \<open>Properties\<close>

subsection \<open>Size estimates and clipping\<close>

lemma PIXEL_CHAR_WIDTH_eq: "PIXEL_CHAR_WIDTH = 9"
  by (simp add: PIXEL_CHAR_WIDTH_def)

lemma split_not_Nil: "split sep t \<noteq> []"
  by (induction t) (auto split: list.splits)

lemma split_no_sep: "l \<in> set (split sep t) \<Longrightarrow> sep \<notin> set l"
  by (induction t arbitrary: l) (auto split: if_splits list.splits)

lemma split_length: "length (split sep t) = Suc (count_list t sep)"
  by (induction t) (auto split: list.splits simp: split_not_Nil)

lemma height_loop_sum:
  "S \<noteq> 0 \<Longrightarrow>
   height_loop S ls h =
     Inr (h + sum_list (map (\<lambda>line. int (length line) * PIXEL_CHAR_WIDTH div S + 1) ls))"
  by (induction ls arbitrary: h) (simp_all add: algebra_simps)

lemma sum_list_ge_1:
  "ls \<noteq> [] \<Longrightarrow> (\<And>l. l \<in> set ls \<Longrightarrow> (1::int) \<le> f l) \<Longrightarrow> 1 \<le> sum_list (map f ls)"
proof (induction ls)
  case Nil
  then show ?case by simp
next
  case (Cons a ls)
  show ?case
  proof (cases ls)
    case Nil
    with Cons.prems show ?thesis by simp
  next
    case (Cons b bs)
    then have "1 \<le> sum_list (map f ls)" using Cons.IH Cons.prems by simp
    moreover have "1 \<le> f a" using Cons.prems by simp
    ultimately show ?thesis by simp
  qed
qed

lemma py_number_less_simps:
  "Finite a < Finite b \<longleftrightarrow> a < b" "Finite a < PosInf" "NegInf < Finite b" "NegInf < PosInf"
  "\<not> x < NegInf" "\<not> PosInf < x" "\<not> NaN < x" "\<not> x < NaN"
  by (simp_all add: less_py_number_def split: py_number.splits)

lemma py_number_le_simps:
  "Finite a \<le> Finite b \<longleftrightarrow> a \<le> b" "Finite a \<le> PosInf" "NegInf \<le> Finite b" "NegInf \<le> PosInf"
  "NegInf \<le> NegInf" "PosInf \<le> PosInf" "\<not> Finite a \<le> NegInf" "\<not> PosInf \<le> Finite b"
  "\<not> PosInf \<le> NegInf" "\<not> NaN \<le> x" "\<not> x \<le> NaN"
  by (simp_all add: less_eq_py_number_def split: py_number.splits)

text \<open>
  Claim C4, as amended. On all Python numbers \<open>__clip\<close> is the cascade of two strict
  comparisons: the lower bound when \<open>v < lo\<close>, else the upper bound when \<open>v > hi\<close>, else
  \<open>v\<close> itself; so a value above \<open>hi\<close>, the positive infinity included, gives \<open>hi\<close> when
  \<open>lo \<le> hi\<close>, both bounds pass through unchanged, and every \<open>v\<close> with \<open>lo \<le> v \<le> hi\<close> is
  returned as it is. For \<open>lo \<le> hi\<close> the result lies in \<open>[lo, hi]\<close> for every \<open>v\<close> other than
  \<open>nan\<close>.
\<close>

theorem clip_cases:
  fixes v lo hi :: py_number
  shows "(v < lo \<longrightarrow> clip v lo hi = lo)
       \<and> (\<not> v < lo \<and> v > hi \<longrightarrow> clip v lo hi = hi)
       \<and> (\<not> v < lo \<and> \<not> v > hi \<longrightarrow> clip v lo hi = v)
       \<and> (lo \<le> hi \<longrightarrow> (v > hi \<longrightarrow> clip v lo hi = hi) \<and> clip lo lo hi = lo \<and> clip hi lo hi = hi)
       \<and> (lo \<le> hi \<and> v \<noteq> NaN \<longrightarrow> lo \<le> clip v lo hi \<and> clip v lo hi \<le> hi)
       \<and> (lo \<le> v \<and> v \<le> hi \<longrightarrow> clip v lo hi = v)"
  by (cases v; cases lo; cases hi)
    (simp_all add: clip_def py_number_less_simps py_number_le_simps)

theorem clip_cases_witness:
  "clip (Finite 30) (Finite 3.5) (Finite 24) = Finite 24
   \<and> clip (Finite 2) (Finite 3.5) (Finite 24) = Finite 3.5
   \<and> clip (Finite 24) (Finite 3.5) (Finite 24) = Finite 24
   \<and> clip (Finite 3.5) (Finite 3.5) (Finite 24) = Finite 3.5
   \<and> clip (Finite 10) (Finite 3.5) (Finite 24) = Finite 10
   \<and> clip PosInf (Finite 3.5) (Finite 24) = Finite 24
   \<and> clip NegInf (Finite 3.5) (Finite 24) = Finite 3.5
   \<and> Finite 3.5 \<le> clip PosInf (Finite 3.5) (Finite 24)
   \<and> clip PosInf (Finite 3.5) (Finite 24) \<le> Finite 24"
  using clip_cases [of "Finite 30" "Finite 3.5" "Finite 24"]
    clip_cases [of "Finite 2" "Finite 3.5" "Finite 24"]
    clip_cases [of "Finite 24" "Finite 3.5" "Finite 24"]
    clip_cases [of "Finite 3.5" "Finite 3.5" "Finite 24"]
    clip_cases [of "Finite 10" "Finite 3.5" "Finite 24"]
    clip_cases [of PosInf "Finite 3.5" "Finite 24"]
    clip_cases [of NegInf "Finite 3.5" "Finite 24"]
  by (simp add: py_number_less_simps py_number_le_simps)

text \<open>
  Claim C4 as stated fails at \<open>nan\<close>: both comparisons are false, so
  \<open>__clip(nan, 3.5, 24)\<close> is \<open>nan\<close>, which is neither at least 3.5 nor at most 24.
\<close>

theorem clip_nan_outside_bounds:
  "Finite 3.5 \<le> Finite 24
   \<and> clip NaN (Finite 3.5) (Finite 24) = NaN
   \<and> \<not> Finite 3.5 \<le> clip NaN (Finite 3.5) (Finite 24)
   \<and> \<not> clip NaN (Finite 3.5) (Finite 24) \<le> Finite 24"
  by (simp add: clip_def py_number_less_simps py_number_le_simps)

text \<open>
  Claim C5. For a sheet pixel width \<open>S > 0\<close>, \<open>__printed_text_height\<close> returns the sum,
  over the lines of the text split at the line feed, of
  \<open>floor(len(line) * PIXEL_CHAR_WIDTH / S) + 1\<close>, where \<open>PIXEL_CHAR_WIDTH\<close> is 9; the empty
  text has height 1, and every text has height at least 1.
\<close>

theorem printed_text_height_sum:
  assumes "0 < PIXEL_SHEET_WIDTH r"
  shows "printed_text_height r T =
           Inr (sum_list (map (\<lambda>line. int (length line) * 9 div PIXEL_SHEET_WIDTH r + 1)
                              (split (ord CHR 0x0A) T)))
         \<and> printed_text_height r [] = Inr 1
         \<and> (\<exists>h. printed_text_height r T = Inr h \<and> 1 \<le> h)"
proof -
  have S: "PIXEL_SHEET_WIDTH r \<noteq> 0" using assms by simp
  have eq: "printed_text_height r T =
           Inr (sum_list (map (\<lambda>line. int (length line) * 9 div PIXEL_SHEET_WIDTH r + 1)
                              (split (ord CHR 0x0A) T)))" for T
    by (simp add: printed_text_height_def height_loop_sum [OF S] PIXEL_CHAR_WIDTH_eq)
  have "1 \<le> sum_list (map (\<lambda>line. int (length line) * 9 div PIXEL_SHEET_WIDTH r + 1)
                              (split (ord CHR 0x0A) T))"
    by (rule sum_list_ge_1) (simp_all add: split_not_Nil pos_imp_zdiv_nonneg_iff [OF assms])
  then show ?thesis using eq [of T] eq [of "[]"] by simp
qed

theorem printed_text_height_sum_witness:
  "0 < PIXEL_SHEET_WIDTH (init 20 24 3.5)
   \<and> printed_text_height (init 20 24 3.5) (py ''Hello\<newline>'') = Inr 4"
  using printed_text_height_sum [of "init 20 24 3.5" "py ''Hello\<newline>''"]
  by (simp add: init_def py_def)

subsection \<open>Reporters in use: the basic steps\<close>

lemma and_then_Inr [simp]: "and_then (Inr x) f = f x"
  by (simp add: and_then_def)

lemma and_then_Inl [simp]: "and_then (Inl e) f = Inl e"
  by (simp add: and_then_def)

lemma ready_cursor_pos: "ready r a p n s \<Longrightarrow> cursor_pos r = Inr p"
  by (simp add: ready_def cursor_pos_def)

lemma ready_active_sheet: "ready r a p n s \<Longrightarrow> active_sheet r = Inr (n, s)"
  by (simp add: ready_def active_sheet_def)

lemma ready_put_sheet: "ready r a p n s \<Longrightarrow> ready (put_sheet r n s') a p n s'"
  by (simp add: ready_def put_sheet_def)

lemma put_sheet_twice: "put_sheet (put_sheet r n s1) n s2 = put_sheet r n s2"
  by (simp add: put_sheet_def)

lemma put_sheet_same: "ready r a p n s \<Longrightarrow> put_sheet r n s = r"
  by (simp add: ready_def put_sheet_def map_upd_triv)

lemma ready_sheet_call:
  "ready r a p n s \<Longrightarrow> sheet_call r c = Inr (put_sheet r n (s\<lparr>calls := calls s @ [c]\<rparr>))"
  by (simp add: sheet_call_def ready_active_sheet)

lemma ready_apply_shift:
  "ready r a p n s \<Longrightarrow>
   apply_shift r sh = Inr (r\<lparr>heap := (heap r)(a \<mapsto> (fst p + fst sh, snd p + snd sh))\<rparr>)"
  by (cases p) (simp add: ready_def apply_shift_def)

lemma ready_heap_upd: "ready r a p n s \<Longrightarrow> ready (r\<lparr>heap := (heap r)(a \<mapsto> q)\<rparr>) a q n s"
  by (simp add: ready_def)

lemma frame_refl: "frame r r a"
  by (simp add: frame_def)

lemma frame_trans: "frame r r1 a \<Longrightarrow> frame r1 r2 a \<Longrightarrow> frame r r2 a"
  by (simp add: frame_def)

subsection \<open>Text boxes\<close>

lemma ready_text_op:
  assumes "ready r a p n s"
  shows "\<exists>r'. text_op r v f sh = Inr r'
           \<and> ready r' a (fst p + fst sh, snd p + snd sh) n
                (s\<lparr>calls := calls s @ [Write (fst p) (snd p) v (add_format f)]\<rparr>)
           \<and> frame r r' a"
proof -
  let ?s' = "s\<lparr>calls := calls s @ [Write (fst p) (snd p) v (add_format f)]\<rparr>"
  have r1: "ready (put_sheet r n ?s') a p n ?s'" by (rule ready_put_sheet [OF assms])
  have "text_op r v f sh =
          Inr ((put_sheet r n ?s')\<lparr>heap := (heap (put_sheet r n ?s'))(a \<mapsto> (fst p + fst sh, snd p + snd sh))\<rparr>)"
    by (simp add: text_op_def ready_cursor_pos [OF assms] ready_sheet_call [OF assms]
          ready_apply_shift [OF r1] case_prod_unfold)
  moreover have "frame r ((put_sheet r n ?s')\<lparr>heap := (heap (put_sheet r n ?s'))(a \<mapsto> (fst p + fst sh, snd p + snd sh))\<rparr>) a"
    by (simp add: frame_def put_sheet_def)
  ultimately show ?thesis using ready_heap_upd [OF r1] by auto
qed

lemma ready_header_cells_loop:
  "ready r a p n s \<Longrightarrow>
   \<exists>r' q s'. header_cells_loop k r hf = Inr r' \<and> ready r' a q n s' \<and> frame r r' a"
proof (induction k arbitrary: r p s)
  case 0
  have "header_cells_loop 0 r hf = Inr r" by simp
  with "0.prems" frame_refl show ?case by blast
next
  case (Suc k)
  from ready_text_op [OF Suc.prems, of "Str []" hf "(0, 1)"]
  obtain r1 s1 q1 where t: "text_op r (Str []) hf (0, 1) = Inr r1"
    and r1: "ready r1 a q1 n s1" and f1: "frame r r1 a" by blast
  from Suc.IH [OF r1] obtain r' q s' where
    "header_cells_loop k r1 hf = Inr r'" "ready r' a q n s'" "frame r1 r' a" by blast
  moreover have "header_cells_loop (Suc k) r hf = header_cells_loop k r1 hf"
    by (simp add: t)
  ultimately show ?case using f1 frame_trans by metis
qed

lemma ready_title_branch:
  assumes "ready r a p n s"
  shows "\<exists>r' s'. title_branch r t hf = Inr r' \<and> ready r' (next_addr r) p n s'"
proof -
  let ?r1 = "r\<lparr>heap := (heap r)(next_addr r \<mapsto> p), next_addr := Suc (next_addr r),
                cursor_anchor := Some (next_addr r)\<rparr>"
  have c: "copy_cursor r = Inr ?r1" using assms by (simp add: copy_cursor_def ready_def)
  have r1: "ready ?r1 a p n s" using assms by (auto simp: ready_def)
  have h1: "heap ?r1 (next_addr r) = Some p" by simp
  from ready_text_op [OF r1, of t hf "(0, 1)"]
  obtain r2 s2 q2 where t2: "text_op ?r1 t hf (0, 1) = Inr r2"
    and r2: "ready r2 a q2 n s2" and f2: "frame ?r1 r2 a" by blast
  from ready_header_cells_loop [OF r2]
  obtain r3 q3 s3 where l3: "header_cells_loop
        (nat (max 3 (int (length (str t)) * PIXEL_CHAR_WIDTH div PIXEL_CELL_WIDTH))) r2 hf = Inr r3"
    and r3: "ready r3 a q3 n s3" and f3: "frame r2 r3 a" by blast
  have f: "frame ?r1 r3 a" using f2 f3 by (rule frame_trans)
  have ne: "next_addr r \<noteq> a" using assms by (auto simp: ready_def)
  have "ready (r3\<lparr>cursor := cursor_anchor r3\<rparr>) (next_addr r) p n s3"
    using r3 f ne h1 by (auto simp: ready_def frame_def)
  moreover have "title_branch r t hf = Inr (r3\<lparr>cursor := cursor_anchor r3\<rparr>)"
    by (simp add: title_branch_def c t2 l3 Let_def)
  ultimately show ?thesis by blast
qed

text \<open>
  Claim C10. On a reporter in use whose sheet pixel width is not zero, \<open>_textbox\<close> returns,
  and the cursor position after it is the position before it plus the supplied shift, or
  plus \<open>(printed_text_height(text) + 2, 0)\<close> when no shift is supplied; this is so with and
  without a title, since the title branch ends by rebinding the cursor to the copy saved
  before the title and header cells were written.
\<close>

theorem textbox_cursor:
  assumes "ready r a (x, y) n s" and "PIXEL_SHEET_WIDTH r \<noteq> 0"
  shows "\<exists>h r'. printed_text_height r txt = Inr h
           \<and> textbox_op r txt title header_fmt textbox_fmt shift = Inr r'
           \<and> cursor_pos r' =
               Inr (case shift of None \<Rightarrow> (x + (h + 2), y + 0) | Some sh \<Rightarrow> (x + fst sh, y + snd sh))"
proof -
  obtain h where h: "printed_text_height r txt = Inr h"
    using assms(2) by (simp add: printed_text_height_def height_loop_sum)
  let ?s1 = "s\<lparr>calls := calls s @ [InsertTextbox (x + 1) y txt (PIXEL_SHEET_WIDTH r)
                               (h * PIXEL_ROW_HEIGHT) textbox_fmt]\<rparr>"
  let ?r1 = "put_sheet r n ?s1"
  let ?sh = "case shift of None \<Rightarrow> (h + 2, 0) | Some sh \<Rightarrow> sh"
  have r1: "ready ?r1 a (x, y) n ?s1" by (rule ready_put_sheet [OF assms(1)])
  have "\<exists>r2 a2 s2. (case title of None \<Rightarrow> Inr ?r1 | Some t \<Rightarrow> title_branch ?r1 t header_fmt) = Inr r2
          \<and> ready r2 a2 (x, y) n s2"
  proof (cases title)
    case None
    then show ?thesis using r1 by auto
  next
    case (Some t)
    then show ?thesis using ready_title_branch [OF r1, of t header_fmt] by auto
  qed
  then obtain r2 a2 s2 where
    t: "(case title of None \<Rightarrow> Inr ?r1 | Some t \<Rightarrow> title_branch ?r1 t header_fmt) = Inr r2"
    and r2: "ready r2 a2 (x, y) n s2" by blast
  let ?r3 = "r2\<lparr>heap := (heap r2)(a2 \<mapsto> (x + fst ?sh, y + snd ?sh))\<rparr>"
  have a: "apply_shift r2 ?sh = Inr ?r3" using ready_apply_shift [OF r2, of ?sh] by simp
  have "textbox_op r txt title header_fmt textbox_fmt shift = Inr ?r3"
    by (simp add: textbox_op_def h ready_cursor_pos [OF assms(1)] ready_sheet_call [OF assms(1)] t a
          del: and_then_Inr add: and_then_def)
  moreover have "cursor_pos ?r3 = Inr (x + fst ?sh, y + snd ?sh)"
    using ready_cursor_pos [OF ready_heap_upd [OF r2]] by simp
  ultimately show ?thesis using h by (auto split: option.splits)
qed

lemma example_created:
  "create_empty_sheet (init 1200 24 3.5) (py ''Sheet1'') [] = Inr example_reporter"
  by (simp add: create_empty_sheet_def set_active_sheet_def example_reporter_def
      example_sheet_def init_def Let_def)

lemma example_ready: "ready example_reporter DEFAULT_CURSOR (0, 0) (py ''Sheet1'') example_sheet"
  by (simp add: ready_def example_reporter_def init_def DEFAULT_CURSOR_def)

lemma example_config:
  "PIXEL_SHEET_WIDTH example_reporter = 1200"
  "MAX_CELL_WIDTH example_reporter = 24"
  "MIN_CELL_WIDTH example_reporter = 3.5"
  by (simp_all add: example_reporter_def init_def)

subsection \<open>Text boxes on the example reporter\<close>

theorem textbox_cursor_witness:
  "ready example_reporter DEFAULT_CURSOR (0, 0) (py ''Sheet1'') example_sheet
   \<and> PIXEL_SHEET_WIDTH example_reporter \<noteq> 0
   \<and> and_then (textbox_op example_reporter (py ''Hello'') (Some (Str (py ''Title''))) (Some []) [] None)
        cursor_pos = Inr (3, 0)
   \<and> and_then (textbox_op example_reporter (py ''Hello'') None (Some []) [] (Some (7, 1)))
        cursor_pos = Inr (7, 1)"
proof -
  have w: "PIXEL_SHEET_WIDTH example_reporter \<noteq> 0" by (simp add: example_config)
  have h: "printed_text_height example_reporter (py ''Hello'') = Inr 1"
    by (simp add: printed_text_height_def example_config py_def PIXEL_CHAR_WIDTH_eq)
  show ?thesis
    using example_ready w h
      textbox_cursor [OF example_ready w, of "py ''Hello''" "Some (Str (py ''Title''))" "Some []" "[]" None]
      textbox_cursor [OF example_ready w, of "py ''Hello''" None "Some []" "[]" "Some (7, 1)"]
    by auto
qed

subsection \<open>Images: double arithmetic\<close>

lemma round_even_of_int: "round_even (of_int z) = z"
  by (simp add: round_even_def)

lemma round_even_near: "\<bar>of_int (round_even y) - y\<bar> \<le> 1 / 2"
proof -
  have "of_int \<lfloor>y\<rfloor> \<le> y" "y < of_int \<lfloor>y\<rfloor> + 1" by linarith+
  then show ?thesis by (auto simp: round_even_def Let_def)
qed

lemma expo_up_le: "1 \<le> x \<Longrightarrow> 2 powi (expo_up x e) \<le> x * 2 powi e"
proof (induction x e rule: expo_up.induct)
  case (1 x e)
  show ?case
  proof (cases "2 \<le> x \<and> e < 1024")
    case True
    then have "1 \<le> x / 2" by simp
    from 1(1) [OF True this] have "2 powi (expo_up (x / 2) (e + 1)) \<le> x / 2 * 2 powi (e + 1)" .
    also have "\<dots> = x * 2 powi e" by (simp add: power_int_add)
    finally show ?thesis using True by (subst expo_up.simps) simp
  next
    case False
    have "1 * 2 powi e \<le> x * (2::real) powi e" using 1(2) by (intro mult_right_mono) simp_all
    then have "2 powi e \<le> x * 2 powi e" by simp
    then show ?thesis using False by (subst expo_up.simps) auto
  qed
qed

lemma expo_down_le: "expo_down x e \<le> e"
proof (induction x e rule: expo_down.induct)
  case (1 x e)
  show ?case
  proof (cases "x < 1 \<and> - 1022 < e")
    case True
    from 1 [OF True] have "expo_down (2 * x) (e - 1) \<le> e - 1" .
    then show ?thesis using True by (subst expo_down.simps) simp
  next
    case False
    then show ?thesis by (subst expo_down.simps) auto
  qed
qed

lemma ulp_le: "2 powi (expo x - 52) \<le> max 1 \<bar>x\<bar> / 2 ^ 52"
proof (cases "1 \<le> \<bar>x\<bar>")
  case True
  from expo_up_le [OF True, of 0] have "2 powi (expo x) \<le> \<bar>x\<bar>" using True by (simp add: expo_def)
  moreover have "(2::real) powi (expo x - 52) = 2 powi (expo x) / 2 ^ 52"
    by (simp add: power_int_diff)
  ultimately show ?thesis using True by (simp add: divide_right_mono max_def)
next
  case False
  have "expo x \<le> 0" using False expo_down_le [of "\<bar>x\<bar>" 0] by (simp add: expo_def)
  then have "(2::real) powi (expo x) \<le> 2 powi 0" by (intro power_int_increasing) simp_all
  moreover have "(2::real) powi (expo x - 52) = 2 powi (expo x) / 2 ^ 52"
    by (simp add: power_int_diff)
  ultimately show ?thesis using False by (simp add: divide_right_mono max_def)
qed

lemma rnd_near: "\<bar>rnd x - x\<bar> \<le> max 1 \<bar>x\<bar> / 2 ^ 53"
proof (cases "x = 0")
  case True
  then show ?thesis by (simp add: rnd_def)
next
  case False
  let ?u = "(2::real) powi (expo x - 52)"
  have u: "0 < ?u" by simp
  have "rnd x - x = (of_int (round_even (x / ?u)) - x / ?u) * ?u"
    using False by (simp add: rnd_def Let_def algebra_simps)
  then have "\<bar>rnd x - x\<bar> = \<bar>of_int (round_even (x / ?u)) - x / ?u\<bar> * ?u"
    using u by (simp add: abs_mult)
  also have "\<dots> \<le> 1 / 2 * ?u" using round_even_near [of "x / ?u"] u
    by (intro mult_right_mono) simp_all
  also have "\<dots> \<le> 1 / 2 * (max 1 \<bar>x\<bar> / 2 ^ 52)" using ulp_le [of x] by simp
  also have "\<dots> = max 1 \<bar>x\<bar> / 2 ^ 53" by simp
  finally show ?thesis .
qed

lemma rnd_bound: "\<bar>rnd x\<bar> \<le> 2 * max 1 \<bar>x\<bar>"
proof -
  define M where "M = max 1 \<bar>x\<bar>"
  have M: "1 \<le> M" "\<bar>x\<bar> \<le> M" by (simp_all add: M_def)
  have "M / 2 ^ 53 \<le> M / 1" using M(1) by (intro divide_left_mono) simp_all
  with rnd_near [of x] have "\<bar>rnd x - x\<bar> \<le> M" by (simp add: M_def)
  with M(2) have "\<bar>rnd x\<bar> \<le> 2 * M" by linarith
  then show ?thesis by (simp add: M_def)
qed

lemma rnd_of_int:
  assumes "\<bar>h\<bar> < 2 ^ 53"
  shows "rnd (of_int h) = of_int h"
proof (cases "h = 0")
  case True
  then show ?thesis by (simp add: rnd_def)
next
  case False
  let ?x = "real_of_int h"
  have "1 \<le> \<bar>h\<bar>" using False by linarith
  then have "real_of_int 1 \<le> real_of_int \<bar>h\<bar>" by (simp only: of_int_le_iff)
  then have x1: "1 \<le> \<bar>?x\<bar>" by simp
  from expo_up_le [OF x1, of 0] have le: "2 powi (expo ?x) \<le> \<bar>?x\<bar>" using x1 by (simp add: expo_def)
  have "real_of_int \<bar>h\<bar> < real_of_int (2 ^ 53)" using assms by (simp only: of_int_less_iff)
  then have "\<bar>?x\<bar> < 2 ^ 53" by simp
  with le have lt: "(2::real) powi (expo ?x) < 2 powi 53" by simp
  have e: "expo ?x < 53"
  proof (rule ccontr)
    assume "\<not> expo ?x < 53"
    then have "(2::real) powi 53 \<le> 2 powi (expo ?x)" by (intro power_int_increasing) simp_all
    with lt show False by simp
  qed
  define k where "k = nat (52 - expo ?x)"
  have k: "expo ?x - 52 = - int k" using e by (simp add: k_def)
  have u: "(2::real) powi (expo ?x - 52) = 1 / 2 ^ k"
    unfolding k by (simp add: power_int_minus field_simps)
  have "?x / (1 / 2 ^ k) = of_int (h * 2 ^ k)" by simp
  then have "round_even (?x / (1 / 2 ^ k)) = h * 2 ^ k" by (simp only: round_even_of_int)
  then show ?thesis using False by (simp add: rnd_def Let_def u)
qed

lemma checked_Inr: "\<bar>q\<bar> \<le> 2 ^ 1023 \<Longrightarrow> checked q = Inr q"
proof -
  assume "\<bar>q\<bar> \<le> 2 ^ 1023"
  moreover have "(2::real) ^ 1023 < 2 ^ 1024" by (intro power_strict_increasing) simp_all
  ultimately have "\<bar>q\<bar> < 2 ^ 1024" by linarith
  then show ?thesis by (simp only: checked_def not_le [symmetric] if_False)
qed

lemma rnd_le_pow:
  assumes "\<bar>q\<bar> \<le> 2 ^ k"
  shows "\<bar>rnd q\<bar> \<le> 2 ^ Suc k"
proof -
  have "(1::real) \<le> 2 ^ k" by (rule one_le_power) simp
  with assms have m: "max 1 \<bar>q\<bar> \<le> 2 ^ k" by simp
  have "\<bar>rnd q\<bar> \<le> 2 * max 1 \<bar>q\<bar>" by (rule rnd_bound)
  also have "\<dots> \<le> 2 * 2 ^ k" using m by (intro mult_left_mono) simp_all
  finally show ?thesis by simp
qed

lemma true_div_Inr:
  assumes "0 < w" and "\<bar>m\<bar> \<le> 2 ^ 960"
  shows "true_div m w = Inr (rnd (m / real_of_int w))"
    and "\<bar>rnd (m / real_of_int w)\<bar> \<le> 2 ^ 961"
proof -
  have "1 \<le> real_of_int w" using assms(1) by simp
  then have "\<bar>m\<bar> / real_of_int w \<le> \<bar>m\<bar> / 1" by (intro divide_left_mono) simp_all
  then have "\<bar>m / real_of_int w\<bar> \<le> \<bar>m\<bar>" using assms(1) by simp
  with assms(2) have "\<bar>m / real_of_int w\<bar> \<le> 2 ^ 960" by linarith
  from rnd_le_pow [OF this] have "\<bar>rnd (m / real_of_int w)\<bar> \<le> 2 ^ Suc 960" .
  then have b: "\<bar>rnd (m / real_of_int w)\<bar> \<le> 2 ^ 961" by simp
  have "(2::real) ^ 961 \<le> 2 ^ 1023" by (intro power_increasing) simp_all
  with b have "\<bar>rnd (m / real_of_int w)\<bar> \<le> 2 ^ 1023" by linarith
  from checked_Inr [OF this] have c: "checked (rnd (m / real_of_int w)) = Inr (rnd (m / real_of_int w))" .
  have w: "w \<noteq> 0" using assms(1) by simp
  show "true_div m w = Inr (rnd (m / real_of_int w))"
    by (simp only: true_div_def w if_False c)
  show "\<bar>rnd (m / real_of_int w)\<bar> \<le> 2 ^ 961" by (rule b)
qed

lemma default_image_shift_Inr:
  assumes "0 < h" and "h < 2 ^ 53" and "\<bar>scale\<bar> \<le> 2 ^ 961"
  shows "default_image_shift h scale =
           Inr (\<lceil>rnd (rnd (real_of_int h * scale) / 20)\<rceil> + 1, 0)"
proof -
  have ah: "\<bar>h\<bar> < 2 ^ 53" using assms(1,2) by simp
  have rh: "rnd (real_of_int h) = real_of_int h" by (rule rnd_of_int [OF ah])
  have "real_of_int \<bar>h\<bar> \<le> real_of_int (2 ^ 53)" using ah by simp
  then have h53: "\<bar>real_of_int h\<bar> \<le> 2 ^ 53" by simp
  show ?thesis
  proof (cases "scale = 1")
    case True
    have "\<bar>real_of_int h / 20\<bar> \<le> \<bar>real_of_int h\<bar>" by simp
    with h53 have "\<bar>real_of_int h / 20\<bar> \<le> 2 ^ 53" by linarith
    from rnd_le_pow [OF this] have "\<bar>rnd (real_of_int h / 20)\<bar> \<le> 2 ^ 54" by simp
    moreover have "(2::real) ^ 54 \<le> 2 ^ 1023" by (intro power_increasing) simp_all
    ultimately have "\<bar>rnd (real_of_int h / 20)\<bar> \<le> 2 ^ 1023" by linarith
    from checked_Inr [OF this] show ?thesis
      using True by (simp add: default_image_shift_def PIXEL_ROW_HEIGHT_def rh)
  next
    case False
    have c1: "checked (rnd (real_of_int h)) = Inr (real_of_int h)"
    proof -
      have "(2::real) ^ 53 \<le> 2 ^ 1023" by (intro power_increasing) simp_all
      with h53 have "\<bar>real_of_int h\<bar> \<le> 2 ^ 1023" by linarith
      from checked_Inr [OF this] show ?thesis by (simp only: rh)
    qed
    have "\<bar>real_of_int h * scale\<bar> = \<bar>real_of_int h\<bar> * \<bar>scale\<bar>" by (rule abs_mult)
    also have "\<dots> \<le> 2 ^ 53 * 2 ^ 961" using h53 assms(3) by (intro mult_mono) simp_all
    also have "\<dots> = 2 ^ 1014" by (simp flip: power_add)
    finally have "\<bar>real_of_int h * scale\<bar> \<le> 2 ^ 1014" .
    from rnd_le_pow [OF this] have "\<bar>rnd (real_of_int h * scale)\<bar> \<le> 2 ^ 1015" by simp
    moreover have "(2::real) ^ 1015 \<le> 2 ^ 1023" by (intro power_increasing) simp_all
    ultimately have "\<bar>rnd (real_of_int h * scale)\<bar> \<le> 2 ^ 1023" by linarith
    from checked_Inr [OF this]
    have c2: "checked (rnd (real_of_int h * scale)) = Inr (rnd (real_of_int h * scale))" .
    show ?thesis
      using False by (simp add: default_image_shift_def PIXEL_ROW_HEIGHT_def c1 c2)
  qed
qed

lemma dict_set_other: "k' \<noteq> k \<Longrightarrow> map_of (dict_set k v d) k' = map_of d k'"
  by (induction d) auto

lemma dict_merge_other:
  "k \<notin> fst ` set extra \<Longrightarrow> map_of (dict_merge base extra) k = map_of base k"
  unfolding dict_merge_def
  by (induction extra arbitrary: base) (auto simp: dict_set_other)

text \<open>
  Claim C9, as amended. For an image of pixel size \<open>(w, h)\<close> with \<open>0 < w, h < 2 ^ 53\<close> and
  a bound \<open>(maxW, maxH)\<close> of magnitude at most \<open>2 ^ 960\<close> (no operation overflows), \<open>_image\<close>
  computes in double arithmetic the scale \<open>min(1, maxW / w, maxH / h)\<close>, each quotient
  rounded to a double, which is at most 1. It inserts the image at the cursor with the
  options \<open>image_data\<close>, \<open>x_scale = y_scale = scale\<close> and \<open>object_position\<close> updated by
  \<open>image_options\<close>: both scales are the computed one unless \<open>image_options\<close> sets them.
  Without an explicit shift it advances the cursor by \<open>(ceil(h * scale / 20) + 1, 0)\<close>,
  the product and the quotient rounded to doubles. An image of size (900, 1600) under
  the bound (450, 800) is scaled by 1/2 and moves the cursor down 41 rows.
\<close>

theorem image_scale_and_cursor:
  assumes "ready r a (x, y) n s"
    and "0 < w" and "w < 2 ^ 53" and "0 < h" and "h < 2 ^ 53"
    and "\<bar>maxW\<bar> \<le> 2 ^ 960" and "\<bar>maxH\<bar> \<le> 2 ^ 960"
  shows "\<exists>scale opts r'.
           image_scale (w, h) (maxW, maxH) = Inr scale
         \<and> scale = min 1 (min (rnd (maxW / real_of_int w)) (rnd (maxH / real_of_int h)))
         \<and> scale \<le> 1
         \<and> image_op r (w, h) image_name (maxW, maxH) image_options shift = Inr r'
         \<and> active_sheet r' = Inr (n, s\<lparr>calls := calls s @ [InsertImage x y image_name opts]\<rparr>)
         \<and> opts = dict_merge [(''image_data'', ImageData (w, h)), (''x_scale'', Num scale),
                               (''y_scale'', Num scale), (''object_position'', Num 3)]
                     image_options
         \<and> (''x_scale'' \<notin> fst ` set image_options \<longrightarrow> map_of opts ''x_scale'' = Some (Num scale))
         \<and> (''y_scale'' \<notin> fst ` set image_options \<longrightarrow> map_of opts ''y_scale'' = Some (Num scale))
         \<and> cursor_pos r' =
             Inr (case shift of
                    None \<Rightarrow> (x + (\<lceil>rnd (rnd (real_of_int h * scale) / 20)\<rceil> + 1), y + 0)
                  | Some sh \<Rightarrow> (x + fst sh, y + snd sh))"
proof -
  let ?sw = "rnd (maxW / real_of_int w)" and ?sh = "rnd (maxH / real_of_int h)"
  let ?scale = "min 1 (min ?sw ?sh)"
  let ?opts = "dict_merge [(''image_data'', ImageData (w, h)), (''x_scale'', Num ?scale),
                           (''y_scale'', Num ?scale), (''object_position'', Num 3)] image_options"
  let ?s1 = "s\<lparr>calls := calls s @ [InsertImage x y image_name ?opts]\<rparr>"
  let ?d = "(\<lceil>rnd (rnd (real_of_int h * ?scale) / 20)\<rceil> + 1, 0::int)"
  let ?shift = "case shift of None \<Rightarrow> ?d | Some sh \<Rightarrow> sh"
  let ?r1 = "put_sheet r n ?s1"
  let ?r2 = "?r1\<lparr>heap := (heap ?r1)(a \<mapsto> (x + fst ?shift, y + snd ?shift))\<rparr>"
  note dw = true_div_Inr [OF assms(2) assms(6)] and dh = true_div_Inr [OF assms(4) assms(7)]
  have sc: "image_scale (w, h) (maxW, maxH) = Inr ?scale"
    by (simp add: image_scale_def dw(1) dh(1))
  have "(1::real) \<le> 2 ^ 961" by simp
  with dw(2) dh(2) have b: "\<bar>?scale\<bar> \<le> 2 ^ 961" by (simp add: min_def)
  have ds: "default_image_shift h ?scale = Inr ?d"
    by (rule default_image_shift_Inr [OF assms(4,5) b])
  have sh: "(case shift of None \<Rightarrow> default_image_shift h ?scale | Some sh \<Rightarrow> Inr sh) = Inr ?shift"
    by (cases shift) (simp_all add: ds)
  have r1: "ready ?r1 a (x, y) n ?s1" by (rule ready_put_sheet [OF assms(1)])
  have ap: "apply_shift ?r1 ?shift = Inr ?r2"
    using ready_apply_shift [OF r1, of ?shift] by (simp only: fst_conv snd_conv)
  have op: "image_op r (w, h) image_name (maxW, maxH) image_options shift = Inr ?r2"
    unfolding image_op_def
    by (simp only: sc and_then_Inr ready_cursor_pos [OF assms(1)] prod.case fst_conv snd_conv
        ready_sheet_call [OF assms(1)] sh ap)
  have r2: "ready ?r2 a (x + fst ?shift, y + snd ?shift) n ?s1" by (rule ready_heap_upd [OF r1])
  have cp: "cursor_pos ?r2 =
             Inr (case shift of
                    None \<Rightarrow> (x + (\<lceil>rnd (rnd (real_of_int h * ?scale) / 20)\<rceil> + 1), y + 0)
                  | Some sh \<Rightarrow> (x + fst sh, y + snd sh))"
    using ready_cursor_pos [OF r2] by (cases shift) simp_all
  have ac: "active_sheet ?r2 = Inr (n, ?s1)" by (rule ready_active_sheet [OF r2])
  have le: "?scale \<le> 1" by simp
  have ox: "''x_scale'' \<notin> fst ` set image_options \<longrightarrow> map_of ?opts ''x_scale'' = Some (Num ?scale)"
    by (simp add: dict_merge_other)
  have oy: "''y_scale'' \<notin> fst ` set image_options \<longrightarrow> map_of ?opts ''y_scale'' = Some (Num ?scale)"
    by (simp add: dict_merge_other)
  show ?thesis
    by (intro exI [of _ ?scale] exI [of _ ?opts] exI [of _ ?r2] conjI sc refl le op ac ox oy cp)
qed

lemma rnd_half: "rnd (1 / 2) = 1 / 2"
  by (simp add: rnd_def expo_def round_even_def)

lemma rnd_800: "rnd 800 = 800"
  using rnd_of_int [of 800] by simp

lemma rnd_40: "rnd 40 = 40"
  using rnd_of_int [of 40] by simp

theorem image_scale_and_cursor_witness:
  "ready example_reporter DEFAULT_CURSOR (0, 0) (py ''Sheet1'') example_sheet
   \<and> (0::int) < 900 \<and> (900::int) < 2 ^ 53 \<and> (0::int) < 1600 \<and> (1600::int) < 2 ^ 53
   \<and> \<bar>450::real\<bar> \<le> 2 ^ 960 \<and> \<bar>800::real\<bar> \<le> 2 ^ 960
   \<and> image_scale (900, 1600) (450, 800) = Inr (1 / 2)
   \<and> and_then (image_op example_reporter (900, 1600) (py ''img'') (450, 800) [] None) cursor_pos
       = Inr (41, 0)"
proof -
  have p: "\<bar>450::real\<bar> \<le> 2 ^ 960" "\<bar>800::real\<bar> \<le> 2 ^ 960" by simp_all
  have q: "(0::int) < 900" "(900::int) < 2 ^ 53" "(0::int) < 1600" "(1600::int) < 2 ^ 53"
    by simp_all
  from image_scale_and_cursor [OF example_ready q p, of "py ''img''" "[]" None]
  obtain scale r' where sc: "image_scale (900, 1600) (450, 800) = Inr scale"
    and v: "scale = min 1 (min (rnd (450 / real_of_int 900)) (rnd (800 / real_of_int 1600)))"
    and op: "image_op example_reporter (900, 1600) (py ''img'') (450, 800) [] None = Inr r'"
    and cp: "cursor_pos r' = Inr (0 + (\<lceil>rnd (rnd (real_of_int 1600 * scale) / 20)\<rceil> + 1), 0 + 0)"
    by auto
  have half: "scale = 1 / 2" using v by (simp add: rnd_half)
  have "\<lceil>rnd (rnd (real_of_int 1600 * scale) / 20)\<rceil> = 40" by (simp add: half rnd_800 rnd_40)
  with cp have "cursor_pos r' = Inr (41, 0)" by simp
  with op sc half example_ready p q show ?thesis by simp
qed

lemma rnd_scale_1060: "rnd (40 / 53) = 3398943114996601 / 4503599627370496"
  by (simp add: rnd_def expo_def round_even_def)

lemma rnd_scale_500: "rnd (9 / 10) = 8106479329266893 / 9007199254740992"
  by (simp add: rnd_def expo_def round_even_def)


lemma rnd_1060: "rnd 1060 = 1060"
  using rnd_of_int [of 1060] by simp

lemma rnd_product_1060:
  "rnd (900719925474099265 / 1125899906842624) = 7036874417766401 / 8796093022208"
  by (simp add: rnd_def expo_def round_even_def)

lemma rnd_quotient_1060:
  "rnd (7036874417766401 / 175921860444160) = 5629499534213121 / 140737488355328"
  by (simp add: rnd_def expo_def round_even_def)

text \<open>
  Claim C9 as stated fails in two ways. For an image of size (500, 1060) under the bound
  (450, 800) the exact scale is 40/53 and \<open>ceil(1060 * scale / 20) + 1\<close> is 41; the code
  computes the double 0.7547169811320755 for the scale, 800.0000000000001 for the
  product and 40.00000000000001 for the quotient, and moves the cursor down 42 rows.
  And the entries of \<open>image_options\<close> replace the computed scales: with
  \<open>image_options = {'x_scale': 2}\<close> the image is inserted with \<open>x_scale\<close> 2, enlarged.
\<close>

theorem image_advance_rounded_and_scale_overridden:
  "image_scale (500, 1060) (450, 800) = Inr (6797886229993202 / 2 ^ 53)
   \<and> and_then (image_op example_reporter (500, 1060) (py ''img'') (450, 800) [] None) cursor_pos
       = Inr (42, 0)
   \<and> \<lceil>real_of_int 1060 * min 1 (min (450 / real_of_int 500) (800 / real_of_int 1060)) / 20\<rceil> + 1
       = (41::int)
   \<and> and_then (image_op example_reporter (900, 1600) (py ''img'') (450, 800)
                  [(''x_scale'', Num 2)] None)
        (\<lambda>r. and_then (active_sheet r) (\<lambda>(n, s). Inr (calls s)))
       = Inr [InsertImage 0 0 (py ''img'')
                [(''image_data'', ImageData (900, 1600)), (''x_scale'', Num 2),
                 (''y_scale'', Num (1 / 2)), (''object_position'', Num 3)]]
   \<and> (1::real) < 2"
proof -
  have s1: "image_scale (500, 1060) (450, 800) = Inr (3398943114996601 / 4503599627370496)"
    by (simp add: image_scale_def true_div_def rnd_scale_1060 rnd_scale_500 checked_def)
  have d1: "default_image_shift 1060 (3398943114996601 / 4503599627370496) = Inr (42, 0)"
    by (simp add: default_image_shift_def PIXEL_ROW_HEIGHT_def checked_def rnd_1060
        rnd_product_1060 rnd_quotient_1060)
  have 1: "and_then (image_op example_reporter (500, 1060) (py ''img'') (450, 800) [] None) cursor_pos
       = Inr (42, 0)"
    by (simp add: image_op_def s1 d1 example_reporter_def init_def cursor_pos_def sheet_call_def
        active_sheet_def put_sheet_def apply_shift_def DEFAULT_CURSOR_def)
  have 2: "\<lceil>real_of_int 1060 * min 1 (min (450 / real_of_int 500) (800 / real_of_int 1060)) / 20\<rceil> + 1
       = (41::int)"
    by simp
  have s2: "image_scale (900, 1600) (450, 800) = Inr (1 / 2)"
    by (simp add: image_scale_def true_div_def rnd_half checked_def)
  have d2: "default_image_shift 1600 (1 / 2) = Inr (41, 0)"
    using rnd_of_int [of 1600]
    by (simp add: default_image_shift_def PIXEL_ROW_HEIGHT_def rnd_800 rnd_40 checked_def)
  have 3: "and_then (image_op example_reporter (900, 1600) (py ''img'') (450, 800)
                  [(''x_scale'', Num 2)] None)
        (\<lambda>r. and_then (active_sheet r) (\<lambda>(n, s). Inr (calls s)))
       = Inr [InsertImage 0 0 (py ''img'')
                [(''image_data'', ImageData (900, 1600)), (''x_scale'', Num 2),
                 (''y_scale'', Num (1 / 2)), (''object_position'', Num 3)]]"
    by (simp add: image_op_def s2 d2 example_reporter_def init_def cursor_pos_def sheet_call_def
        active_sheet_def put_sheet_def apply_shift_def DEFAULT_CURSOR_def dict_merge_def
        example_sheet_def set_column_def add_worksheet_def)
  show ?thesis using s1 1 2 3 by simp
qed

subsection \<open>The cursor of \<open>set_active_sheet\<close>\<close>

text \<open>
  Claim C6. A call of \<open>set_active_sheet\<close> that omits \<open>cursor\<close> is to put the cursor at the
  origin. The code binds the cursor to the one list of the default argument, which
  \<open>apply_shift\<close> mutates in place: after \<open>create_empty_sheet('A')\<close> the cursor is at (0, 0),
  and after a text with shift (2, 0) and \<open>set_active_sheet('A')\<close> it is at (2, 0).
\<close>

theorem set_active_sheet_default_cursor_shared:
  "and_then (create_empty_sheet (init 1200 24 3.5) (py ''A'') []) (\<lambda>r1.
   and_then (cursor_pos r1) (\<lambda>p0.
   and_then (text_op r1 (Str (py ''x'')) None (2, 0)) (\<lambda>r2.
   and_then (set_active_sheet r2 (py ''A'') None) (\<lambda>r3.
   and_then (cursor_pos r3) (\<lambda>p3. Inr (p0, p3)))))) = Inr ((0, 0), (2, 0))"
  by (simp add: create_empty_sheet_def set_active_sheet_def init_def Let_def text_op_def
      cursor_pos_def sheet_call_def active_sheet_def put_sheet_def apply_shift_def
      DEFAULT_CURSOR_def)

subsection \<open>Column widths\<close>

lemma ready_get_col_width: "ready r a p n s \<Longrightarrow> get_col_width r col = Inr (col_width s col)"
  by (simp add: get_col_width_def ready_active_sheet)

lemma ready_ensure_width:
  assumes "ready r a p n s" and "default_cell_format r = Some d"
  shows "ensure_width r col nm =
           Inr (if col_width s col < printed_value_width nm
                then put_sheet r n (set_column s col col
                       (clip (printed_value_width nm) (MIN_CELL_WIDTH r) (MAX_CELL_WIDTH r)) d)
                else r)"
  by (simp add: ensure_width_def ready_get_col_width [OF assms(1)] assms(2) adjust_col_width_def
      ready_active_sheet [OF assms(1)] Let_def)

lemma put_sheet_config [simp]:
  "MIN_CELL_WIDTH (put_sheet r n s) = MIN_CELL_WIDTH r"
  "MAX_CELL_WIDTH (put_sheet r n s) = MAX_CELL_WIDTH r"
  "PIXEL_SHEET_WIDTH (put_sheet r n s) = PIXEL_SHEET_WIDTH r"
  "default_cell_format (put_sheet r n s) = default_cell_format r"
  by (simp_all add: put_sheet_def)

lemma col_width_set_column:
  "col_width (set_column s col col w f) c = (if c = col then w else col_width s c)"
  by (simp add: col_width_def set_column_def)

text \<open>
  Claim C3. On a reporter in use, the width adjustment of a column (lines 171 to 175 of
  \<open>_table\<close>) computes \<open>need = printed_value_width(text)\<close> and, exactly when the current width
  of the column is strictly below \<open>need\<close>, stores \<open>clip(need, MIN_CELL_WIDTH, MAX_CELL_WIDTH)\<close>
  with the default cell format for that column; otherwise it changes nothing. No other
  column and no cell is touched. In particular a header that needs more than
  \<open>MAX_CELL_WIDTH\<close> (with \<open>MIN_CELL_WIDTH \<le> MAX_CELL_WIDTH\<close>) sets the column to
  \<open>MAX_CELL_WIDTH\<close>: with the constants of the class no header needs exactly 30, a header
  of 26 characters needs 30.82 and is stored as 24.
\<close>

theorem ensure_width_stores_clipped:
  assumes "ready r a p n s"
  shows "\<exists>r' s' d.
           default_cell_format r = Some d
         \<and> ensure_width r col nm = Inr r'
         \<and> ready r' a p n s'
         \<and> calls s' = calls s
         \<and> (\<forall>c. c \<noteq> col \<longrightarrow> col_info s' c = col_info s c)
         \<and> (col_width s col < printed_value_width nm \<longrightarrow>
              col_info s' col =
                Some (clip (printed_value_width nm) (MIN_CELL_WIDTH r) (MAX_CELL_WIDTH r), d))
         \<and> (\<not> col_width s col < printed_value_width nm \<longrightarrow> r' = r \<and> s' = s)
         \<and> (col_width s col < printed_value_width nm \<and> MIN_CELL_WIDTH r \<le> MAX_CELL_WIDTH r
              \<and> MAX_CELL_WIDTH r < printed_value_width nm \<longrightarrow>
              col_width s' col = MAX_CELL_WIDTH r)"
proof -
  obtain d where d: "default_cell_format r = Some d" using assms by (auto simp: ready_def)
  let ?w = "clip (printed_value_width nm) (MIN_CELL_WIDTH r) (MAX_CELL_WIDTH r)"
  let ?s1 = "set_column s col col ?w d"
  show ?thesis
  proof (cases "col_width s col < printed_value_width nm")
    case True
    have e: "ensure_width r col nm = Inr (put_sheet r n ?s1)"
      by (simp add: ready_ensure_width [OF assms d] True)
    have "ready (put_sheet r n ?s1) a p n ?s1" by (rule ready_put_sheet [OF assms])
    moreover have "calls ?s1 = calls s" by (simp add: set_column_def)
    moreover have "\<forall>c. c \<noteq> col \<longrightarrow> col_info ?s1 c = col_info s c" by (simp add: set_column_def)
    moreover have "col_info ?s1 col = Some (?w, d)" by (simp add: set_column_def)
    moreover have "MIN_CELL_WIDTH r \<le> MAX_CELL_WIDTH r \<and> MAX_CELL_WIDTH r < printed_value_width nm
        \<longrightarrow> col_width ?s1 col = MAX_CELL_WIDTH r"
      by (auto simp: col_width_set_column clip_def)
    ultimately show ?thesis using d e True by blast
  next
    case False
    have "ensure_width r col nm = Inr r" by (simp add: ready_ensure_width [OF assms d] False)
    then show ?thesis using d assms False by blast
  qed
qed

theorem ensure_width_stores_clipped_witness:
  "ready example_reporter DEFAULT_CURSOR (0, 0) (py ''Sheet1'') example_sheet
   \<and> col_width example_sheet 1 = 8.43
   \<and> printed_value_width (Str (replicate 26 (ord CHR ''a''))) = 197262 / 6400
   \<and> and_then (ensure_width example_reporter 1 (Str (replicate 26 (ord CHR ''a''))))
        (\<lambda>r'. get_col_width r' 1) = Inr 24"
proof -
  let ?nm = "Str (replicate 26 (ord CHR ''a''))"
  have w: "col_width example_sheet 1 = 8.43"
    by (simp add: col_width_def example_sheet_def set_column_def CELL_WIDTH_def)
  have n: "printed_value_width ?nm = 197262 / 6400"
    by (simp add: printed_value_width_def PIXEL_CHAR_WIDTH_eq PIXEL_TO_WIDTH_RATIO_def
        CELL_WIDTH_def PIXEL_CELL_WIDTH_def)
  from ensure_width_stores_clipped [OF example_ready, of 1 ?nm]
  obtain r' s' where e: "ensure_width example_reporter 1 ?nm = Inr r'"
    and r: "ready r' DEFAULT_CURSOR (0, 0) (py ''Sheet1'') s'"
    and m: "col_width example_sheet 1 < printed_value_width ?nm
              \<and> MIN_CELL_WIDTH example_reporter \<le> MAX_CELL_WIDTH example_reporter
              \<and> MAX_CELL_WIDTH example_reporter < printed_value_width ?nm \<longrightarrow>
            col_width s' 1 = MAX_CELL_WIDTH example_reporter"
    by blast
  have "col_width s' 1 = 24" using m unfolding n w by (simp add: example_config)
  then have "get_col_width r' 1 = Inr 24" by (simp add: ready_get_col_width [OF r])
  then show ?thesis using example_ready w n e by simp
qed

lemma ensure_width_step:
  assumes "ready r a p n s" and "MIN_CELL_WIDTH r \<le> MAX_CELL_WIDTH r"
  shows "\<exists>r' s'. ensure_width r col nm = Inr r' \<and> ready r' a p n s'
           \<and> MIN_CELL_WIDTH r' = MIN_CELL_WIDTH r \<and> MAX_CELL_WIDTH r' = MAX_CELL_WIDTH r
           \<and> (\<forall>c. col_info s' c = col_info s c
                  \<or> (\<exists>w f. col_info s' c = Some (w, f)
                        \<and> MIN_CELL_WIDTH r \<le> w \<and> w \<le> MAX_CELL_WIDTH r
                        \<and> (col_width s c \<le> MAX_CELL_WIDTH r \<longrightarrow> col_width s c \<le> w)))"
proof -
  obtain d where d: "default_cell_format r = Some d" using assms by (auto simp: ready_def)
  let ?w = "clip (printed_value_width nm) (MIN_CELL_WIDTH r) (MAX_CELL_WIDTH r)"
  let ?s1 = "set_column s col col ?w d"
  show ?thesis
  proof (cases "col_width s col < printed_value_width nm")
    case True
    have e: "ensure_width r col nm = Inr (put_sheet r n ?s1)"
      by (simp add: ready_ensure_width [OF assms(1) d] True)
    have rd: "ready (put_sheet r n ?s1) a p n ?s1" by (rule ready_put_sheet [OF assms(1)])
    have b: "MIN_CELL_WIDTH r \<le> ?w \<and> ?w \<le> MAX_CELL_WIDTH r"
      using assms(2) by (auto simp: clip_def)
    have m: "col_width s col \<le> MAX_CELL_WIDTH r \<longrightarrow> col_width s col \<le> ?w"
      using True by (auto simp: clip_def)
    have "\<forall>c. col_info ?s1 c = col_info s c
                  \<or> (\<exists>w f. col_info ?s1 c = Some (w, f)
                        \<and> MIN_CELL_WIDTH r \<le> w \<and> w \<le> MAX_CELL_WIDTH r
                        \<and> (col_width s c \<le> MAX_CELL_WIDTH r \<longrightarrow> col_width s c \<le> w))"
    proof
      fix c
      show "col_info ?s1 c = col_info s c
                  \<or> (\<exists>w f. col_info ?s1 c = Some (w, f)
                        \<and> MIN_CELL_WIDTH r \<le> w \<and> w \<le> MAX_CELL_WIDTH r
                        \<and> (col_width s c \<le> MAX_CELL_WIDTH r \<longrightarrow> col_width s c \<le> w))"
      proof (cases "c = col")
        case True
        then have "col_info ?s1 c = Some (?w, d)" by (simp add: set_column_def)
        with b m True show ?thesis by blast
      next
        case False
        then show ?thesis by (simp add: set_column_def)
      qed
    qed
    with e rd show ?thesis by (intro exI [of _ "put_sheet r n ?s1"] exI [of _ ?s1]) simp
  next
    case False
    have "ensure_width r col nm = Inr r" by (simp add: ready_ensure_width [OF assms(1) d] False)
    with assms(1) show ?thesis by (intro exI [of _ r] exI [of _ s]) simp
  qed
qed

subsection \<open>Sequences of width adjustments\<close>

lemma grown_refl: "grown lo hi s s"
  by (simp add: grown_def)

lemma col_width_Some: "col_info s c = Some (w, f) \<Longrightarrow> col_width s c = w"
  by (simp add: col_width_def)

lemma grown_trans:
  assumes "grown lo hi s s1" and "grown lo hi s1 s2"
  shows "grown lo hi s s2"
  unfolding grown_def
proof
  fix c
  from assms(1) have 1: "col_info s1 c = col_info s c
      \<or> (\<exists>w f. col_info s1 c = Some (w, f) \<and> lo \<le> w \<and> w \<le> hi
                \<and> (col_width s c \<le> hi \<longrightarrow> col_width s c \<le> w))"
    by (simp add: grown_def)
  from assms(2) have 2: "col_info s2 c = col_info s1 c
      \<or> (\<exists>w f. col_info s2 c = Some (w, f) \<and> lo \<le> w \<and> w \<le> hi
                \<and> (col_width s1 c \<le> hi \<longrightarrow> col_width s1 c \<le> w))"
    by (simp add: grown_def)
  show "col_info s2 c = col_info s c
      \<or> (\<exists>w f. col_info s2 c = Some (w, f) \<and> lo \<le> w \<and> w \<le> hi
                \<and> (col_width s c \<le> hi \<longrightarrow> col_width s c \<le> w))"
  proof (cases "col_info s2 c = col_info s1 c")
    case True
    with 1 show ?thesis by simp
  next
    case False
    with 2 obtain w2 f2 where w2: "col_info s2 c = Some (w2, f2)" "lo \<le> w2" "w2 \<le> hi"
      "col_width s1 c \<le> hi \<longrightarrow> col_width s1 c \<le> w2" by blast
    have "col_width s c \<le> hi \<longrightarrow> col_width s c \<le> w2"
    proof (cases "col_info s1 c = col_info s c")
      case True
      then show ?thesis using w2(4) by (simp add: col_width_def)
    next
      case False
      with 1 obtain w1 f1 where w1: "col_info s1 c = Some (w1, f1)" "w1 \<le> hi"
        "col_width s c \<le> hi \<longrightarrow> col_width s c \<le> w1" by blast
      have "col_width s1 c = w1" by (rule col_width_Some [OF w1(1)])
      with w1 w2 show ?thesis by auto
    qed
    with w2 show ?thesis by blast
  qed
qed

lemma ensure_widths_grown:
  "ready r a p n s \<Longrightarrow> MIN_CELL_WIDTH r \<le> MAX_CELL_WIDTH r \<Longrightarrow>
   \<exists>r' s'. ensure_widths r cs = Inr r' \<and> ready r' a p n s'
     \<and> grown (MIN_CELL_WIDTH r) (MAX_CELL_WIDTH r) s s'"
proof (induction cs arbitrary: r s)
  case Nil
  have "ensure_widths r [] = Inr r" by simp
  with Nil.prems(1) grown_refl show ?case by blast
next
  case (Cons c cs)
  obtain col nm where c: "c = (col, nm)" by (cases c)
  from ensure_width_step [OF Cons.prems, of col nm]
  obtain r1 s1 where e: "ensure_width r col nm = Inr r1" and r1: "ready r1 a p n s1"
    and cfg: "MIN_CELL_WIDTH r1 = MIN_CELL_WIDTH r" "MAX_CELL_WIDTH r1 = MAX_CELL_WIDTH r"
    and g1: "grown (MIN_CELL_WIDTH r) (MAX_CELL_WIDTH r) s s1"
    unfolding grown_def by blast
  have "MIN_CELL_WIDTH r1 \<le> MAX_CELL_WIDTH r1" using cfg Cons.prems(2) by simp
  from Cons.IH [OF r1 this] obtain r' s' where
    e': "ensure_widths r1 cs = Inr r'" and r': "ready r' a p n s'"
    and g2: "grown (MIN_CELL_WIDTH r) (MAX_CELL_WIDTH r) s1 s'"
    unfolding cfg by blast
  have "ensure_widths r (c # cs) = Inr r'" by (simp add: c e e')
  with r' grown_trans [OF g1 g2] show ?case by blast
qed

text \<open>
  Claim C2, as amended. For a configuration with \<open>MIN_CELL_WIDTH \<le> MAX_CELL_WIDTH\<close>, over any
  sequence of width adjustments on a reporter in use every column either keeps its entry
  of the width table or holds a width of \<open>[MIN_CELL_WIDTH, MAX_CELL_WIDTH]\<close>; and if every
  column's width was at most \<open>MAX_CELL_WIDTH\<close> before (the default \<open>CELL_WIDTH\<close> included), no
  column's width has decreased.
\<close>

theorem ensure_widths_bounded_monotone:
  assumes "ready r a p n s" and "MIN_CELL_WIDTH r \<le> MAX_CELL_WIDTH r"
  shows "\<exists>r' s'. ensure_widths r cs = Inr r' \<and> ready r' a p n s'
           \<and> (\<forall>c. col_info s' c = col_info s c
                  \<or> (\<exists>w f. col_info s' c = Some (w, f)
                        \<and> MIN_CELL_WIDTH r \<le> w \<and> w \<le> MAX_CELL_WIDTH r))
           \<and> ((\<forall>c. col_width s c \<le> MAX_CELL_WIDTH r) \<longrightarrow>
                (\<forall>c. col_width s c \<le> col_width s' c))"
proof -
  from ensure_widths_grown [OF assms, of cs] obtain r' s' where
    e: "ensure_widths r cs = Inr r'" and r': "ready r' a p n s'"
    and g: "grown (MIN_CELL_WIDTH r) (MAX_CELL_WIDTH r) s s'" by blast
  have 1: "\<forall>c. col_info s' c = col_info s c
                  \<or> (\<exists>w f. col_info s' c = Some (w, f)
                        \<and> MIN_CELL_WIDTH r \<le> w \<and> w \<le> MAX_CELL_WIDTH r)"
    using g unfolding grown_def by blast
  have 2: "(\<forall>c. col_width s c \<le> MAX_CELL_WIDTH r) \<longrightarrow> (\<forall>c. col_width s c \<le> col_width s' c)"
  proof (intro impI allI)
    fix c
    assume le: "\<forall>c. col_width s c \<le> MAX_CELL_WIDTH r"
    from g have "col_info s' c = col_info s c
          \<or> (\<exists>w f. col_info s' c = Some (w, f) \<and> (col_width s c \<le> MAX_CELL_WIDTH r \<longrightarrow> col_width s c \<le> w))"
      unfolding grown_def by blast
    then show "col_width s c \<le> col_width s' c"
    proof
      assume "col_info s' c = col_info s c"
      then show ?thesis by (simp add: col_width_def)
    next
      assume "\<exists>w f. col_info s' c = Some (w, f) \<and> (col_width s c \<le> MAX_CELL_WIDTH r \<longrightarrow> col_width s c \<le> w)"
      then obtain w f where "col_info s' c = Some (w, f)" "col_width s c \<le> w" using le by blast
      then show ?thesis by (simp add: col_width_Some)
    qed
  qed
  show ?thesis by (intro exI [of _ r'] exI [of _ s'] conjI e r' 1 2)
qed

lemma example_sheet_widths: "col_width example_sheet c \<le> 24"
  by (simp add: col_width_def example_sheet_def set_column_def add_worksheet_def CELL_WIDTH_def)

theorem ensure_widths_bounded_monotone_witness:
  "ready example_reporter DEFAULT_CURSOR (0, 0) (py ''Sheet1'') example_sheet
   \<and> MIN_CELL_WIDTH example_reporter \<le> MAX_CELL_WIDTH example_reporter
   \<and> (\<forall>c. col_width example_sheet c \<le> MAX_CELL_WIDTH example_reporter)
   \<and> (\<exists>r' s'. ensure_widths example_reporter
                 [(1, Str (py ''a long column header'')), (1, Str (py ''id'')), (2, Str (py ''x''))] = Inr r'
         \<and> active_sheet r' = Inr (py ''Sheet1'', s')
         \<and> (\<forall>c. col_width example_sheet c \<le> col_width s' c))"
proof -
  have c: "MIN_CELL_WIDTH example_reporter \<le> MAX_CELL_WIDTH example_reporter"
    by (simp add: example_config)
  have w: "\<forall>c. col_width example_sheet c \<le> MAX_CELL_WIDTH example_reporter"
    by (simp add: example_config example_sheet_widths)
  from ensure_widths_bounded_monotone [OF example_ready c,
      of "[(1, Str (py ''a long column header'')), (1, Str (py ''id'')), (2, Str (py ''x''))]"] w
  obtain r' s' where "ensure_widths example_reporter
                 [(1, Str (py ''a long column header'')), (1, Str (py ''id'')), (2, Str (py ''x''))] = Inr r'"
    "ready r' DEFAULT_CURSOR (0, 0) (py ''Sheet1'') s'"
    "\<forall>c. col_width example_sheet c \<le> col_width s' c" by blast
  then show ?thesis using example_ready c w ready_active_sheet by blast
qed


text \<open>
  Claim C2 as stated fails: the constructor accepts any bounds. With \<open>max_cell_width = 5\<close> a
  new sheet has all its columns at 8.43, and a header of ten characters (which needs
  11.85) shrinks column 1 from 8.43 to 5. With \<open>min_cell_width = 10\<close> and
  \<open>max_cell_width = 5\<close> the same adjustment stores 5, which is not in \<open>[10, 5]\<close>.
\<close>

theorem ensure_width_shrinks_or_leaves_interval:
  "and_then (create_empty_sheet (init 1200 5 3.5) (py ''S'') []) (\<lambda>r.
   and_then (get_col_width r 1) (\<lambda>before.
   and_then (ensure_width r 1 (Str (py ''0123456789''))) (\<lambda>r'.
   and_then (get_col_width r' 1) (\<lambda>after. Inr (before, after))))) = Inr (8.43, 5)
   \<and> (5::real) < 8.43
   \<and> and_then (create_empty_sheet (init 1200 5 10) (py ''S'') []) (\<lambda>r.
      and_then (ensure_width r 1 (Str (py ''0123456789''))) (\<lambda>r'.
      and_then (get_col_width r' 1) (\<lambda>after.
      Inr (MIN_CELL_WIDTH r', after, MAX_CELL_WIDTH r')))) = Inr (10, 5, 5)
   \<and> \<not> ((10::real) \<le> 5)"
  by (simp add: create_empty_sheet_def set_active_sheet_def init_def Let_def
      get_col_width_def active_sheet_def col_width_def set_column_def add_worksheet_def
      ensure_width_def adjust_col_width_def put_sheet_def printed_value_width_def py_def
      PIXEL_CHAR_WIDTH_eq PIXEL_TO_WIDTH_RATIO_def CELL_WIDTH_def PIXEL_CELL_WIDTH_def
      clip_def add_format_def)

subsection \<open>Tables\<close>

lemma ready_write_at:
  assumes "ready r a p n s"
  shows "write_at r drow dcol v f =
     Inr (put_sheet r n (s\<lparr>calls := calls s @ [Write (fst p + drow) (snd p + dcol) v f]\<rparr>))"
  by (simp add: write_at_def ready_active_sheet [OF assms] ready_cursor_pos [OF assms]
      ready_sheet_call [OF assms] case_prod_unfold)

lemma getitem_column:
  assumes "j < length (col_defs df)"
  shows "\<exists>d. getitem df (columns df ! j) = Inr d"
proof -
  have "col_defs df ! j \<in> set (filter (\<lambda>c. fst c = columns df ! j) (col_defs df))"
    using assms by (simp add: columns_def)
  then have "filter (\<lambda>c. fst c = columns df ! j) (col_defs df) \<noteq> []"
    by (metis empty_iff empty_set)
  then show ?thesis by (auto simp: getitem_def split: list.splits)
qed

lemma get_number_format_column:
  assumes "j < length (columns df)"
  shows "\<exists>nf. get_number_format (columns df ! j) df = Inr nf"
proof -
  from assms have "j < length (col_defs df)" by (simp add: columns_def)
  from getitem_column [OF this] obtain d where "getitem df (columns df ! j) = Inr d" ..
  then show ?thesis by (simp add: get_number_format_def)
qed

lemma get_table_item_format_Inr:
  assumes "j < length (columns df)"
  shows "\<exists>nf. get_number_format (columns df ! j) df = Inr nf
     \<and> get_table_item_format i j df =
         Inr \<lparr>fmt_props = (case nf of None \<Rightarrow> [] | Some d \<Rightarrow> d),
              fmt_bottom = (if Suc i = length (rows df) then 1 else 0),
              fmt_right = (if Suc j = length (columns df) then 1 else 0)\<rparr>"
proof -
  from get_number_format_column [OF assms] obtain nf
    where nf: "get_number_format (columns df ! j) df = Inr nf" ..
  have 1: "int i = int (length (rows df)) - 1 \<longleftrightarrow> Suc i = length (rows df)" by auto
  have 2: "int j = int (length (columns df)) - 1 \<longleftrightarrow> Suc j = length (columns df)" by auto
  show ?thesis using assms
    by (simp add: nf get_table_item_format_def 1 2 add_format_def set_bottom_def set_right_def)
qed

lemma ready_table_header_loop:
  assumes "ready r a p n s"
  shows "\<exists>s'. table_header_loop r cf j names = Inr (put_sheet r n s')
      \<and> calls s' = calls s @ map (\<lambda>(k, nm). Write (fst p) (snd p + (int k + 1)) nm cf) (enumerate j names)"
  using assms
proof (induction names arbitrary: r s j)
  case Nil
  have "table_header_loop r cf j [] = Inr (put_sheet r n s)"
    using Nil.prems by (simp add: put_sheet_same)
  then show ?case by (intro exI [of _ s]) simp
next
  case (Cons nm names)
  obtain d where d: "default_cell_format r = Some d" using Cons.prems by (auto simp: ready_def)
  let ?c = "int j + snd p + 1"
  let ?s1 = "if col_width s ?c < printed_value_width nm
             then set_column s ?c ?c
                    (clip (printed_value_width nm) (MIN_CELL_WIDTH r) (MAX_CELL_WIDTH r)) d
             else s"
  have e: "ensure_width r ?c nm = Inr (put_sheet r n ?s1)"
    using Cons.prems by (simp add: ready_ensure_width [OF Cons.prems d] put_sheet_same)
  have c1: "calls ?s1 = calls s" by (simp add: set_column_def)
  have r1: "ready (put_sheet r n ?s1) a p n ?s1" by (rule ready_put_sheet [OF Cons.prems])
  let ?s2 = "?s1\<lparr>calls := calls ?s1 @ [Write (fst p + 0) (snd p + (int j + 1)) nm cf]\<rparr>"
  have w: "write_at (put_sheet r n ?s1) 0 (int j + 1) nm cf = Inr (put_sheet r n ?s2)"
    by (simp only: ready_write_at [OF r1] put_sheet_twice)
  have r2: "ready (put_sheet r n ?s2) a p n ?s2" by (rule ready_put_sheet [OF Cons.prems])
  from Cons.IH [OF r2, of "Suc j"] obtain s' where
    l: "table_header_loop (put_sheet r n ?s2) cf (Suc j) names = Inr (put_sheet (put_sheet r n ?s2) n s')"
    and c: "calls s' = calls ?s2
        @ map (\<lambda>(k, nm). Write (fst p) (snd p + (int k + 1)) nm cf) (enumerate (Suc j) names)"
    by blast
  have "table_header_loop r cf j (nm # names) = Inr (put_sheet r n s')"
    by (simp only: table_header_loop.simps ready_cursor_pos [OF Cons.prems] and_then_Inr
        case_prod_unfold e w l put_sheet_twice)
  moreover have "calls s' = calls s
        @ map (\<lambda>(k, nm). Write (fst p) (snd p + (int k + 1)) nm cf) (enumerate j (nm # names))"
    using c c1 by simp
  ultimately show ?case by blast
qed

lemma ready_table_values_loop:
  assumes "ready r a p n s" and "j + length vals \<le> length (columns df)"
  shows "\<exists>s'. table_values_loop r df i j vals = Inr (put_sheet r n s')
      \<and> calls s' = calls s @ map (\<lambda>(k, v). Write (fst p + (int i + 1)) (snd p + (int k + 1))
             (cast_to_str_except_numbers v) (projr (get_table_item_format i k df))) (enumerate j vals)"
  using assms
proof (induction vals arbitrary: r s j)
  case Nil
  have "table_values_loop r df i j [] = Inr (put_sheet r n s)"
    using Nil.prems(1) by (simp add: put_sheet_same)
  then show ?case by (intro exI [of _ s]) simp
next
  case (Cons v vals)
  have j: "j < length (columns df)" using Cons.prems(2) by simp
  from get_table_item_format_Inr [OF j, of i] obtain f
    where f: "get_table_item_format i j df = Inr f" by blast
  let ?s1 = "s\<lparr>calls := calls s @ [Write (fst p + (int i + 1)) (snd p + (int j + 1))
                (cast_to_str_except_numbers v) f]\<rparr>"
  have w: "write_at r (int i + 1) (int j + 1) (cast_to_str_except_numbers v) f = Inr (put_sheet r n ?s1)"
    by (rule ready_write_at [OF Cons.prems(1)])
  have r1: "ready (put_sheet r n ?s1) a p n ?s1" by (rule ready_put_sheet [OF Cons.prems(1)])
  have "Suc j + length vals \<le> length (columns df)" using Cons.prems(2) by simp
  from Cons.IH [OF r1 this] obtain s' where
    l: "table_values_loop (put_sheet r n ?s1) df i (Suc j) vals = Inr (put_sheet (put_sheet r n ?s1) n s')"
    and c: "calls s' = calls ?s1 @ map (\<lambda>(k, v). Write (fst p + (int i + 1)) (snd p + (int k + 1))
             (cast_to_str_except_numbers v) (projr (get_table_item_format i k df))) (enumerate (Suc j) vals)"
    by blast
  have "table_values_loop r df i j (v # vals) = Inr (put_sheet r n s')"
    by (simp only: table_values_loop.simps f w l and_then_Inr put_sheet_twice)
  moreover have "calls s' = calls s @ map (\<lambda>(k, v). Write (fst p + (int i + 1)) (snd p + (int k + 1))
             (cast_to_str_except_numbers v) (projr (get_table_item_format i k df))) (enumerate j (v # vals))"
    using c f by simp
  ultimately show ?case by blast
qed

lemma ready_table_rows_loop:
  assumes "ready r a p n s" and "\<forall>rw\<in>set rws. length (snd rw) \<le> length (columns df)"
  shows "\<exists>s'. table_rows_loop r df xf i rws = Inr (put_sheet r n s')
      \<and> calls s' = calls s @ concat (map (\<lambda>(k, rw).
             Write (fst p + (int k + 1)) (snd p) (fst rw) xf
             # map (\<lambda>(j, v). Write (fst p + (int k + 1)) (snd p + (int j + 1))
                   (cast_to_str_except_numbers v) (projr (get_table_item_format k j df)))
                 (enumerate 0 (snd rw)))
           (enumerate i rws))"
  using assms
proof (induction rws arbitrary: r s i)
  case Nil
  have "table_rows_loop r df xf i [] = Inr (put_sheet r n s)"
    using Nil.prems(1) by (simp add: put_sheet_same)
  then show ?case by (intro exI [of _ s]) simp
next
  case (Cons rw rws)
  obtain index vals where rw: "rw = (index, vals)" by (cases rw)
  let ?s1 = "s\<lparr>calls := calls s @ [Write (fst p + (int i + 1)) (snd p + 0) index xf]\<rparr>"
  have w: "write_at r (int i + 1) 0 index xf = Inr (put_sheet r n ?s1)"
    by (rule ready_write_at [OF Cons.prems(1)])
  have r1: "ready (put_sheet r n ?s1) a p n ?s1" by (rule ready_put_sheet [OF Cons.prems(1)])
  have "0 + length vals \<le> length (columns df)" using Cons.prems(2) rw by simp
  from ready_table_values_loop [OF r1 this, of i] obtain s2 where
    v: "table_values_loop (put_sheet r n ?s1) df i 0 vals = Inr (put_sheet (put_sheet r n ?s1) n s2)"
    and c2: "calls s2 = calls ?s1 @ map (\<lambda>(k, v). Write (fst p + (int i + 1)) (snd p + (int k + 1))
             (cast_to_str_except_numbers v) (projr (get_table_item_format i k df))) (enumerate 0 vals)"
    by blast
  have r2: "ready (put_sheet r n s2) a p n s2" by (rule ready_put_sheet [OF Cons.prems(1)])
  have "\<forall>rw\<in>set rws. length (snd rw) \<le> length (columns df)" using Cons.prems(2) by simp
  from Cons.IH [OF r2 this, of "Suc i"] obtain s' where
    l: "table_rows_loop (put_sheet r n s2) df xf (Suc i) rws = Inr (put_sheet (put_sheet r n s2) n s')"
    and c: "calls s' = calls s2 @ concat (map (\<lambda>(k, rw).
             Write (fst p + (int k + 1)) (snd p) (fst rw) xf
             # map (\<lambda>(j, v). Write (fst p + (int k + 1)) (snd p + (int j + 1))
                   (cast_to_str_except_numbers v) (projr (get_table_item_format k j df)))
                 (enumerate 0 (snd rw)))
           (enumerate (Suc i) rws))"
    by blast
  have "table_rows_loop r df xf i (rw # rws) = Inr (put_sheet r n s')"
    unfolding rw by (simp only: table_rows_loop.simps w v l and_then_Inr put_sheet_twice)
  moreover have "calls s' = calls s @ concat (map (\<lambda>(k, rw).
             Write (fst p + (int k + 1)) (snd p) (fst rw) xf
             # map (\<lambda>(j, v). Write (fst p + (int k + 1)) (snd p + (int j + 1))
                   (cast_to_str_except_numbers v) (projr (get_table_item_format k j df)))
                 (enumerate 0 (snd rw)))
           (enumerate i (rw # rws)))"
    using c c2 rw by simp
  ultimately show ?case by blast
qed

lemma enumerate_map_nth: "enumerate 0 xs = map (\<lambda>k. (k, xs ! k)) [0..<length xs]"
  by (rule nth_equalityI) (simp_all add: nth_enumerate_eq)

lemma set_map_enumerate: "set (map f (enumerate 0 xs)) = (\<lambda>k. f (k, xs ! k)) ` {..<length xs}"
  by (simp add: enumerate_map_nth image_image atLeast0LessThan)

lemma set_concat_map_enumerate:
  "set (concat (map f (enumerate 0 xs))) = (\<Union>k<length xs. set (f (k, xs ! k)))"
  by (simp add: enumerate_map_nth image_image atLeast0LessThan)

lemma ready_table_op:
  assumes "ready r a p n s"
    and "\<forall>rw\<in>set (rows df). length (snd rw) = length (columns df)"
    and "sh = (case shift of None \<Rightarrow> (int (length (rows df)) + 2, 0) | Some q \<Rightarrow> q)"
  shows "\<exists>r' s' new.
      table_op r df cf xf shift = Inr r'
    \<and> ready r' a (fst p + fst sh, snd p + snd sh) n s'
    \<and> calls s' = calls s @ new
    \<and> set new =
        (\<lambda>j. Write (fst p) (snd p + (int j + 1)) (columns df ! j) (add_format (Some cf)))
          ` {..<length (columns df)}
      \<union> (\<lambda>i. Write (fst p + (int i + 1)) (snd p) (fst (rows df ! i)) (add_format (Some xf)))
          ` {..<length (rows df)}
      \<union> (\<lambda>(i, j). Write (fst p + (int i + 1)) (snd p + (int j + 1))
                   (cast_to_str_except_numbers (snd (rows df ! i) ! j))
                   (projr (get_table_item_format i j df)))
          ` ({..<length (rows df)} \<times> {..<length (columns df)})"
proof -
  let ?cf = "add_format (Some cf)" and ?xf = "add_format (Some xf)"
  let ?H = "map (\<lambda>(k, nm). Write (fst p) (snd p + (int k + 1)) nm ?cf) (enumerate 0 (columns df))"
  let ?B = "concat (map (\<lambda>(k, rw).
             Write (fst p + (int k + 1)) (snd p) (fst rw) ?xf
             # map (\<lambda>(j, v). Write (fst p + (int k + 1)) (snd p + (int j + 1))
                   (cast_to_str_except_numbers v) (projr (get_table_item_format k j df)))
                 (enumerate 0 (snd rw)))
           (enumerate 0 (rows df)))"
  from ready_table_header_loop [OF assms(1), of ?cf 0 "columns df"] obtain s1 where
    h: "table_header_loop r ?cf 0 (columns df) = Inr (put_sheet r n s1)"
    and c1: "calls s1 = calls s @ ?H" by blast
  have r1: "ready (put_sheet r n s1) a p n s1" by (rule ready_put_sheet [OF assms(1)])
  have le: "\<forall>rw\<in>set (rows df). length (snd rw) \<le> length (columns df)" using assms(2) by simp
  from ready_table_rows_loop [OF r1 le, of ?xf 0] obtain s2 where
    b: "table_rows_loop (put_sheet r n s1) df ?xf 0 (rows df) = Inr (put_sheet (put_sheet r n s1) n s2)"
    and c2: "calls s2 = calls s1 @ ?B" by blast
  have r2: "ready (put_sheet r n s2) a p n s2" by (rule ready_put_sheet [OF assms(1)])
  let ?r' = "(put_sheet r n s2)\<lparr>heap := (heap (put_sheet r n s2))(a \<mapsto> (fst p + fst sh, snd p + snd sh))\<rparr>"
  have t: "table_op r df cf xf shift = Inr ?r'"
    unfolding table_op_def Let_def assms(3) [symmetric]
    by (simp only: h b and_then_Inr put_sheet_twice ready_apply_shift [OF r2])
  have r': "ready ?r' a (fst p + fst sh, snd p + snd sh) n s2" by (rule ready_heap_upd [OF r2])
  have c: "calls s2 = calls s @ (?H @ ?B)" using c1 c2 by simp
  have sH: "set ?H = (\<lambda>j. Write (fst p) (snd p + (int j + 1)) (columns df ! j) ?cf)
          ` {..<length (columns df)}"
    by (simp only: set_map_enumerate prod.case)
  have sB: "set ?B =
        (\<lambda>i. Write (fst p + (int i + 1)) (snd p) (fst (rows df ! i)) ?xf) ` {..<length (rows df)}
      \<union> (\<lambda>(i, j). Write (fst p + (int i + 1)) (snd p + (int j + 1))
                   (cast_to_str_except_numbers (snd (rows df ! i) ! j))
                   (projr (get_table_item_format i j df)))
          ` ({..<length (rows df)} \<times> {..<length (columns df)})"
  proof -
    have len: "\<And>i. i < length (rows df) \<Longrightarrow> length (snd (rows df ! i)) = length (columns df)"
      using assms(2) by simp
    show ?thesis
      unfolding set_concat_map_enumerate prod.case list.set set_map_enumerate
      by (auto simp: len image_iff)
  qed
  have "set (?H @ ?B) = (\<lambda>j. Write (fst p) (snd p + (int j + 1)) (columns df ! j) ?cf)
          ` {..<length (columns df)}
      \<union> (\<lambda>i. Write (fst p + (int i + 1)) (snd p) (fst (rows df ! i)) ?xf) ` {..<length (rows df)}
      \<union> (\<lambda>(i, j). Write (fst p + (int i + 1)) (snd p + (int j + 1))
                   (cast_to_str_except_numbers (snd (rows df ! i) ! j))
                   (projr (get_table_item_format i j df)))
          ` ({..<length (rows df)} \<times> {..<length (columns df)})"
    unfolding set_append sH sB by (simp only: Un_assoc)
  with t r' c show ?thesis by blast
qed

lemma example_table_shape:
  "length (rows example_table) = 3" "length (columns example_table) = 2"
  "\<forall>rw\<in>set (rows example_table). length (snd rw) = length (columns example_table)"
  "map (\<lambda>rw. length (snd rw)) (rows example_table) = [2, 2, 2]"
  by (simp_all add: example_table_def columns_def)

text \<open>
  Claim C1. On a reporter in use, for a frame of \<open>R\<close> rows and \<open>C\<close> columns whose rows have
  one value per column, \<open>_table\<close> returns, and among the cells it writes: every data cell
  \<open>(i, j)\<close>, at row \<open>row + i + 1\<close> and column \<open>col + j + 1\<close>, is written with a format whose
  bottom border is set exactly when \<open>i = R - 1\<close> and whose right border is set exactly when
  \<open>j = C - 1\<close>; and every cell written below the header row and right of the index column
  is such a data cell with these borders. So the last row alone has the bottom border,
  the last column alone the right border, and the cell \<open>(R - 1, C - 1)\<close> alone both.
\<close>

theorem table_border_overlay:
  assumes "ready r a (row, col) n s"
    and "\<forall>rw\<in>set (rows df). length (snd rw) = length (columns df)"
  shows "\<exists>r' s' new.
      table_op r df cf xf shift = Inr r'
    \<and> active_sheet r' = Inr (n, s')
    \<and> calls s' = calls s @ new
    \<and> (\<forall>i<length (rows df). \<forall>j<length (columns df). \<exists>v f.
          Write (row + (int i + 1)) (col + (int j + 1)) v f \<in> set new
        \<and> fmt_bottom f = (if Suc i = length (rows df) then 1 else 0)
        \<and> fmt_right f = (if Suc j = length (columns df) then 1 else 0))
    \<and> (\<forall>x y v f. Write x y v f \<in> set new \<and> row < x \<and> col < y \<longrightarrow>
          (\<exists>i<length (rows df). \<exists>j<length (columns df).
              x = row + (int i + 1) \<and> y = col + (int j + 1)
            \<and> fmt_bottom f = (if Suc i = length (rows df) then 1 else 0)
            \<and> fmt_right f = (if Suc j = length (columns df) then 1 else 0)))"
proof -
  let ?D = "\<lambda>(i, j). Write (row + (int i + 1)) (col + (int j + 1))
                   (cast_to_str_except_numbers (snd (rows df ! i) ! j))
                   (projr (get_table_item_format i j df))"
  from ready_table_op [OF assms refl, of cf xf shift] obtain r' s' new where
    t: "table_op r df cf xf shift = Inr r'"
    and r': "ready r' a (row + fst (case shift of None \<Rightarrow> (int (length (rows df)) + 2, 0) | Some q \<Rightarrow> q),
                        col + snd (case shift of None \<Rightarrow> (int (length (rows df)) + 2, 0) | Some q \<Rightarrow> q)) n s'"
    and c: "calls s' = calls s @ new"
    and n: "set new =
        (\<lambda>j. Write row (col + (int j + 1)) (columns df ! j) (add_format (Some cf)))
          ` {..<length (columns df)}
      \<union> (\<lambda>i. Write (row + (int i + 1)) col (fst (rows df ! i)) (add_format (Some xf)))
          ` {..<length (rows df)}
      \<union> ?D ` ({..<length (rows df)} \<times> {..<length (columns df)})"
    unfolding fst_conv snd_conv by blast
  have b: "fmt_bottom (projr (get_table_item_format i j df)) = (if Suc i = length (rows df) then 1 else 0)
         \<and> fmt_right (projr (get_table_item_format i j df)) = (if Suc j = length (columns df) then 1 else 0)"
    if "j < length (columns df)" for i j
    using get_table_item_format_Inr [OF that, of i] by auto
  have 1: "\<forall>i<length (rows df). \<forall>j<length (columns df). \<exists>v f.
          Write (row + (int i + 1)) (col + (int j + 1)) v f \<in> set new
        \<and> fmt_bottom f = (if Suc i = length (rows df) then 1 else 0)
        \<and> fmt_right f = (if Suc j = length (columns df) then 1 else 0)"
  proof (intro allI impI)
    fix i j assume i: "i < length (rows df)" and j: "j < length (columns df)"
    have "?D (i, j) \<in> set new" unfolding n using i j by blast
    then have "Write (row + (int i + 1)) (col + (int j + 1))
                   (cast_to_str_except_numbers (snd (rows df ! i) ! j))
                   (projr (get_table_item_format i j df)) \<in> set new" by simp
    with b [OF j, of i] show "\<exists>v f.
          Write (row + (int i + 1)) (col + (int j + 1)) v f \<in> set new
        \<and> fmt_bottom f = (if Suc i = length (rows df) then 1 else 0)
        \<and> fmt_right f = (if Suc j = length (columns df) then 1 else 0)" by blast
  qed
  have 2: "\<forall>x y v f. Write x y v f \<in> set new \<and> row < x \<and> col < y \<longrightarrow>
          (\<exists>i<length (rows df). \<exists>j<length (columns df).
              x = row + (int i + 1) \<and> y = col + (int j + 1)
            \<and> fmt_bottom f = (if Suc i = length (rows df) then 1 else 0)
            \<and> fmt_right f = (if Suc j = length (columns df) then 1 else 0))"
  proof (intro allI impI)
    fix x y v f assume h: "Write x y v f \<in> set new \<and> row < x \<and> col < y"
    then have "Write x y v f \<in> ?D ` ({..<length (rows df)} \<times> {..<length (columns df)})"
      unfolding n by auto
    then obtain i j where i: "i < length (rows df)" and j: "j < length (columns df)"
      and e: "Write x y v f = ?D (i, j)" by auto
    from e have "x = row + (int i + 1)" "y = col + (int j + 1)"
      "f = projr (get_table_item_format i j df)" by simp_all
    with b [OF j, of i] i j show "\<exists>i<length (rows df). \<exists>j<length (columns df).
              x = row + (int i + 1) \<and> y = col + (int j + 1)
            \<and> fmt_bottom f = (if Suc i = length (rows df) then 1 else 0)
            \<and> fmt_right f = (if Suc j = length (columns df) then 1 else 0)" by blast
  qed
  show ?thesis
    by (intro exI [of _ r'] exI [of _ s'] exI [of _ new] conjI t c 1 2 ready_active_sheet [OF r'])
qed

theorem table_border_overlay_witness:
  "ready example_reporter DEFAULT_CURSOR (0, 0) (py ''Sheet1'') example_sheet
   \<and> map (\<lambda>rw. length (snd rw)) (rows example_table) = [2, 2, 2]
   \<and> (\<exists>r' s'. table_op example_reporter example_table [] [] None = Inr r'
         \<and> active_sheet r' = Inr (py ''Sheet1'', s')
         \<and> (\<exists>v f. Write 1 1 v f \<in> set (calls s') \<and> fmt_bottom f = 0 \<and> fmt_right f = 0)
         \<and> (\<exists>v f. Write 1 2 v f \<in> set (calls s') \<and> fmt_bottom f = 0 \<and> fmt_right f = 1)
         \<and> (\<exists>v f. Write 3 1 v f \<in> set (calls s') \<and> fmt_bottom f = 1 \<and> fmt_right f = 0)
         \<and> (\<exists>v f. Write 3 2 v f \<in> set (calls s') \<and> fmt_bottom f = 1 \<and> fmt_right f = 1))"
proof -
  from table_border_overlay [OF example_ready example_table_shape(3), of "[]" "[]" None]
  obtain r' s' new where t: "table_op example_reporter example_table [] [] None = Inr r'"
    and a: "active_sheet r' = Inr (py ''Sheet1'', s')"
    and c: "calls s' = calls example_sheet @ new"
    and d: "\<forall>i<3. \<forall>j<2. \<exists>v f.
          Write (0 + (int i + 1)) (0 + (int j + 1)) v f \<in> set new
        \<and> fmt_bottom f = (if Suc i = 3 then 1 else 0)
        \<and> fmt_right f = (if Suc j = 2 then 1 else 0)"
    unfolding example_table_shape(1,2) by blast
  from d [rule_format, of 0 0] c
  have 1: "\<exists>v f. Write 1 1 v f \<in> set (calls s') \<and> fmt_bottom f = 0 \<and> fmt_right f = 0" by auto
  from d [rule_format, of 0 1] c
  have 2: "\<exists>v f. Write 1 2 v f \<in> set (calls s') \<and> fmt_bottom f = 0 \<and> fmt_right f = 1" by auto
  from d [rule_format, of 2 0] c
  have 3: "\<exists>v f. Write 3 1 v f \<in> set (calls s') \<and> fmt_bottom f = 1 \<and> fmt_right f = 0" by auto
  from d [rule_format, of 2 1] c
  have 4: "\<exists>v f. Write 3 2 v f \<in> set (calls s') \<and> fmt_bottom f = 1 \<and> fmt_right f = 1" by auto
  from t a 1 2 3 4 example_ready example_table_shape(4) show ?thesis by blast
qed

text \<open>
  Claim C7. On a reporter in use, for a frame of \<open>R\<close> rows whose rows have one value per
  column, \<open>_table\<close> without an explicit shift returns with the cursor, still the same list,
  moved by \<open>(R + 2, 0)\<close>, and the header cell of every column is written in the cursor row
  with the column format. For a frame of no rows the header row is written all the same
  and the cursor moves by (2, 0); a frame of three rows and two columns moves it by (5, 0).
\<close>

theorem table_cursor_advance:
  assumes "ready r a (row, col) n s"
    and "\<forall>rw\<in>set (rows df). length (snd rw) = length (columns df)"
  shows "\<exists>r' s'.
      table_op r df cf xf None = Inr r'
    \<and> cursor r' = cursor r
    \<and> cursor_pos r' = Inr (row + (int (length (rows df)) + 2), col)
    \<and> active_sheet r' = Inr (n, s')
    \<and> (\<forall>j<length (columns df).
          Write row (col + (int j + 1)) (columns df ! j) (add_format (Some cf)) \<in> set (calls s'))
    \<and> (rows df = [] \<longrightarrow> cursor_pos r' = Inr (row + 2, col))"
proof -
  from ready_table_op [OF assms refl, of cf xf None] obtain r' s' new where
    t: "table_op r df cf xf None = Inr r'"
    and r': "ready r' a (row + (int (length (rows df)) + 2), col) n s'"
    and c: "calls s' = calls s @ new"
    and n: "set new =
        (\<lambda>j. Write row (col + (int j + 1)) (columns df ! j) (add_format (Some cf)))
          ` {..<length (columns df)}
      \<union> (\<lambda>i. Write (row + (int i + 1)) col (fst (rows df ! i)) (add_format (Some xf)))
          ` {..<length (rows df)}
      \<union> (\<lambda>(i, j). Write (row + (int i + 1)) (col + (int j + 1))
                   (cast_to_str_except_numbers (snd (rows df ! i) ! j))
                   (projr (get_table_item_format i j df)))
          ` ({..<length (rows df)} \<times> {..<length (columns df)})"
    by (simp only: fst_conv snd_conv option.case add_0_right) blast
  have 0: "cursor r' = cursor r" using r' assms(1) by (simp add: ready_def)
  have 1: "cursor_pos r' = Inr (row + (int (length (rows df)) + 2), col)"
    by (rule ready_cursor_pos [OF r'])
  have 2: "\<forall>j<length (columns df).
          Write row (col + (int j + 1)) (columns df ! j) (add_format (Some cf)) \<in> set (calls s')"
    unfolding c set_append n by blast
  have 3: "rows df = [] \<longrightarrow> cursor_pos r' = Inr (row + 2, col)" using 1 by simp
  show ?thesis
    by (intro exI [of _ r'] exI [of _ s'] conjI t 0 1 2 3 ready_active_sheet [OF r'])
qed

theorem table_cursor_advance_witness:
  "ready example_reporter DEFAULT_CURSOR (0, 0) (py ''Sheet1'') example_sheet
   \<and> map (\<lambda>rw. length (snd rw)) (rows example_table) = [2, 2, 2]
   \<and> length (rows example_table) = 3 \<and> length (columns example_table) = 2
   \<and> and_then (table_op example_reporter example_table [] [] None) cursor_pos = Inr (5, 0)
   \<and> rows (example_table\<lparr>rows := []\<rparr>) = []
   \<and> and_then (table_op example_reporter (example_table\<lparr>rows := []\<rparr>) [] [] None) cursor_pos
       = Inr (2, 0)
   \<and> (\<exists>r' s'. table_op example_reporter (example_table\<lparr>rows := []\<rparr>) [] [] None = Inr r'
         \<and> active_sheet r' = Inr (py ''Sheet1'', s')
         \<and> Write 0 1 (Str (py ''n'')) (add_format (Some [])) \<in> set (calls s')
         \<and> Write 0 2 (Str (py ''done %'')) (add_format (Some [])) \<in> set (calls s'))"
proof -
  from table_cursor_advance [OF example_ready example_table_shape(3), of "[]" "[]"]
  obtain r' where "table_op example_reporter example_table [] [] None = Inr r'"
    and "cursor_pos r' = Inr (0 + (int (length (rows example_table)) + 2), 0)" by blast
  then have 1: "and_then (table_op example_reporter example_table [] [] None) cursor_pos = Inr (5, 0)"
    by (simp add: example_table_shape(1))
  let ?e = "example_table\<lparr>rows := []\<rparr>"
  have e: "\<forall>rw\<in>set (rows ?e). length (snd rw) = length (columns ?e)" by simp
  have c: "columns ?e = [Str (py ''n''), Str (py ''done %'')]"
    by (simp add: example_table_def columns_def)
  from table_cursor_advance [OF example_ready e, of "[]" "[]"]
  obtain r0 s0 where t0: "table_op example_reporter ?e [] [] None = Inr r0"
    and p0: "cursor_pos r0 = Inr (0 + (int (length (rows ?e)) + 2), 0)"
    and a0: "active_sheet r0 = Inr (py ''Sheet1'', s0)"
    and h0: "\<forall>j<length (columns ?e).
          Write 0 (0 + (int j + 1)) (columns ?e ! j) (add_format (Some [])) \<in> set (calls s0)"
    by blast
  have 2: "and_then (table_op example_reporter ?e [] [] None) cursor_pos = Inr (2, 0)"
    using t0 p0 by simp
  from h0 [rule_format, of 0] have 3: "Write 0 1 (Str (py ''n'')) (add_format (Some [])) \<in> set (calls s0)"
    by (simp add: c)
  from h0 [rule_format, of 1] have 4: "Write 0 2 (Str (py ''done %'')) (add_format (Some [])) \<in> set (calls s0)"
    by (simp add: c)
  have 5: "rows ?e = []" by simp
  from example_ready example_table_shape(1,2,4) 1 2 5 t0 a0 3 4 show ?thesis by blast
qed

text \<open>
  Claim C8. For a column whose label is a \<open>str\<close> containing the percent sign,
  \<open>__get_number_format\<close> returns the percentage format \<open>0.00%\<close> whatever the dtype of the
  column: the check comes first, and the frame is not looked at. On a reporter in use,
  for a frame whose rows have one value per column, every value cell of that column
  that \<open>_table\<close> writes (the cells below the header cell, which holds the label in the
  column format) is written, and written with the percentage number format.
\<close>

theorem percent_column_format:
  assumes "ready r a (row, col) n s"
    and "\<forall>rw\<in>set (rows df). length (snd rw) = length (columns df)"
    and "j < length (columns df)"
    and "columns df ! j = Str name"
    and "ord CHR ''%'' \<in> set name"
  shows "get_number_format (Str name) df = Inr (Some [(''num_format'', ''0.00%'')])
    \<and> (\<exists>r' s' new.
          table_op r df cf xf shift = Inr r'
        \<and> active_sheet r' = Inr (n, s')
        \<and> calls s' = calls s @ new
        \<and> (\<forall>i<length (rows df). \<exists>v f.
              Write (row + (int i + 1)) (col + (int j + 1)) v f \<in> set new
            \<and> fmt_props f = [(''num_format'', ''0.00%'')])
        \<and> (\<forall>x v f. Write x (col + (int j + 1)) v f \<in> set new \<and> row < x \<longrightarrow>
              fmt_props f = [(''num_format'', ''0.00%'')]))"
proof -
  let ?D = "\<lambda>(i, j). Write (row + (int i + 1)) (col + (int j + 1))
                   (cast_to_str_except_numbers (snd (rows df ! i) ! j))
                   (projr (get_table_item_format i j df))"
  have g: "get_number_format (Str name) df = Inr (Some [(''num_format'', ''0.00%'')])"
    using assms(5) by (simp add: get_number_format_def)
  have b: "fmt_props (projr (get_table_item_format i j df)) = [(''num_format'', ''0.00%'')]" for i
    using get_table_item_format_Inr [OF assms(3), of i] g by (auto simp: assms(4))
  from ready_table_op [OF assms(1,2) refl, of cf xf shift] obtain r' s' new where
    t: "table_op r df cf xf shift = Inr r'"
    and r': "ready r' a (row + fst (case shift of None \<Rightarrow> (int (length (rows df)) + 2, 0) | Some q \<Rightarrow> q),
                        col + snd (case shift of None \<Rightarrow> (int (length (rows df)) + 2, 0) | Some q \<Rightarrow> q)) n s'"
    and c: "calls s' = calls s @ new"
    and n: "set new =
        (\<lambda>j. Write row (col + (int j + 1)) (columns df ! j) (add_format (Some cf)))
          ` {..<length (columns df)}
      \<union> (\<lambda>i. Write (row + (int i + 1)) col (fst (rows df ! i)) (add_format (Some xf)))
          ` {..<length (rows df)}
      \<union> ?D ` ({..<length (rows df)} \<times> {..<length (columns df)})"
    unfolding fst_conv snd_conv by blast
  have 1: "\<forall>i<length (rows df). \<exists>v f.
              Write (row + (int i + 1)) (col + (int j + 1)) v f \<in> set new
            \<and> fmt_props f = [(''num_format'', ''0.00%'')]"
  proof (intro allI impI)
    fix i assume i: "i < length (rows df)"
    have "?D (i, j) \<in> set new" unfolding n using i assms(3) by blast
    then have "Write (row + (int i + 1)) (col + (int j + 1))
                   (cast_to_str_except_numbers (snd (rows df ! i) ! j))
                   (projr (get_table_item_format i j df)) \<in> set new" by simp
    with b [of i] show "\<exists>v f.
              Write (row + (int i + 1)) (col + (int j + 1)) v f \<in> set new
            \<and> fmt_props f = [(''num_format'', ''0.00%'')]" by blast
  qed
  have 2: "\<forall>x v f. Write x (col + (int j + 1)) v f \<in> set new \<and> row < x \<longrightarrow>
              fmt_props f = [(''num_format'', ''0.00%'')]"
  proof (intro allI impI)
    fix x v f assume h: "Write x (col + (int j + 1)) v f \<in> set new \<and> row < x"
    then have "Write x (col + (int j + 1)) v f \<in> ?D ` ({..<length (rows df)} \<times> {..<length (columns df)})"
      unfolding n by auto
    then obtain i k where e: "Write x (col + (int j + 1)) v f = ?D (i, k)" by auto
    then have "k = j" "f = projr (get_table_item_format i k df)" by simp_all
    with b [of i] show "fmt_props f = [(''num_format'', ''0.00%'')]" by simp
  qed
  show ?thesis
    by (intro exI [of _ r'] exI [of _ s'] exI [of _ new] conjI g t c 1 2 ready_active_sheet [OF r'])
qed

theorem percent_column_format_witness:
  "ready example_reporter DEFAULT_CURSOR (0, 0) (py ''Sheet1'') example_sheet
   \<and> map (\<lambda>rw. length (snd rw)) (rows example_table) = [2, 2, 2]
   \<and> 1 < length (columns example_table)
   \<and> col_defs example_table ! 1 = (Str (py ''done %''), IntegerDtype)
   \<and> ord CHR ''%'' \<in> set (py ''done %'')
   \<and> get_number_format (Str (py ''done %'')) example_table = Inr (Some [(''num_format'', ''0.00%'')])
   \<and> (\<exists>r' s'. table_op example_reporter example_table [] [] None = Inr r'
         \<and> active_sheet r' = Inr (py ''Sheet1'', s')
         \<and> (\<exists>v f. Write 1 2 v f \<in> set (calls s') \<and> fmt_props f = [(''num_format'', ''0.00%'')])
         \<and> (\<exists>v f. Write 2 2 v f \<in> set (calls s') \<and> fmt_props f = [(''num_format'', ''0.00%'')])
         \<and> (\<exists>v f. Write 3 2 v f \<in> set (calls s') \<and> fmt_props f = [(''num_format'', ''0.00%'')]))"
proof -
  have j: "1 < length (columns example_table)" by (simp add: example_table_shape(2))
  have d: "col_defs example_table ! 1 = (Str (py ''done %''), IntegerDtype)"
    by (simp add: example_table_def)
  have nm: "columns example_table ! 1 = Str (py ''done %'')"
    by (simp add: example_table_def columns_def)
  have pc: "ord CHR ''%'' \<in> set (py ''done %'')" by (simp add: py_def)
  from percent_column_format [OF example_ready example_table_shape(3) j nm pc, of "[]" "[]" None]
  obtain r' s' new where
    g: "get_number_format (Str (py ''done %'')) example_table = Inr (Some [(''num_format'', ''0.00%'')])"
    and t: "table_op example_reporter example_table [] [] None = Inr r'"
    and a: "active_sheet r' = Inr (py ''Sheet1'', s')"
    and c: "calls s' = calls example_sheet @ new"
    and w: "\<forall>i<3. \<exists>v f.
              Write (0 + (int i + 1)) (0 + (int 1 + 1)) v f \<in> set new
            \<and> fmt_props f = [(''num_format'', ''0.00%'')]"
    unfolding example_table_shape(1) by blast
  from w [rule_format, of 0] c
  have 1: "\<exists>v f. Write 1 2 v f \<in> set (calls s') \<and> fmt_props f = [(''num_format'', ''0.00%'')]"
    by auto
  from w [rule_format, of 1] c
  have 2: "\<exists>v f. Write 2 2 v f \<in> set (calls s') \<and> fmt_props f = [(''num_format'', ''0.00%'')]"
    by auto
  from w [rule_format, of 2] c
  have 3: "\<exists>v f. Write 3 2 v f \<in> set (calls s') \<and> fmt_props f = [(''num_format'', ''0.00%'')]"
    by auto
  from example_ready example_table_shape(4) j d pc g t a 1 2 3 show ?thesis by blast
qed

end
